theory Spec2Isabelle
  imports Main
begin

section \<open>Values shared by the request-execution layer of \<^verbatim>\<open>src/index.js\<close>\<close>

text \<open>
  A rejection value is an error object. The only property the code reads from it is
  \<^verbatim>\<open>err.code\<close>; \<open>None\<close> stands for a property that is \<^verbatim>\<open>undefined\<close>
  (\<^verbatim>\<open>is.defined(err.code)\<close> is false). The message keeps errors apart.
\<close>

record err =
  code :: "int option"
  message :: string

text \<open>A settled promise: \<open>Inl e\<close> is a rejection with \<open>e\<close>, \<open>Inr v\<close> a fulfilment with \<open>v\<close>.\<close>

type_synonym 'a settled = "err + 'a"

definition MAX_REQUEST_RETRIES :: int where
  "MAX_REQUEST_RETRIES = 5"

definition MAX_CONCURRENT_REQUESTS_PER_CLIENT :: nat where
  "MAX_CONCURRENT_REQUESTS_PER_CLIENT = 100"

definition GRPC_UNAVAILABLE :: int where
  "GRPC_UNAVAILABLE = 14"

definition CLOUD_RESOURCE_HEADER :: string where
  "CLOUD_RESOURCE_HEADER = ''google-cloud-resource-prefix''"

section \<open>The \<^verbatim>\<open>Firestore\<close> instance\<close>

text \<open>
  A settings object, as the validators in \<^verbatim>\<open>settings()\<close> accept it: an optional
  string \<open>projectId\<close>, an optional boolean \<open>timestampsInSnapshots\<close> (\<open>None\<close> for a
  property that is undefined), and the remaining properties (\<^verbatim>\<open>keyFilename\<close>,
  \<^verbatim>\<open>libName\<close>, \<^verbatim>\<open>libVersion\<close>, ...) as a map.
\<close>

record settings_t =
  projectId :: "string option"
  timestampsInSnapshots :: "bool option"
  otherSettings :: "string \<rightharpoonup> string"

text \<open>
  \<^verbatim>\<open>extend({}, a, b)\<close>: the properties of \<open>a\<close>, overwritten by those of \<open>b\<close>; a
  property of \<open>b\<close> that is undefined is skipped.
\<close>

definition extend_settings :: "settings_t \<Rightarrow> settings_t \<Rightarrow> settings_t" where
  "extend_settings a b =
     \<lparr>projectId = (case projectId b of None \<Rightarrow> projectId a | Some p \<Rightarrow> Some p),
      timestampsInSnapshots =
        (case timestampsInSnapshots b of None \<Rightarrow> timestampsInSnapshots a | Some t \<Rightarrow> Some t),
      otherSettings = otherSettings a ++ otherSettings b\<rparr>"

text \<open>\<^verbatim>\<open>new ResourcePath(projectId, databaseId)\<close>.\<close>

record resource_path =
  pathProjectId :: string
  databaseId :: string

text \<open>
  A GAPIC client, made by the pool's factory
  \<^verbatim>\<open>module.exports.v1beta1(this._initalizationSettings)\<close>: the number tells the clients
  of one pool apart.
\<close>

record client =
  clientNo :: nat
  clientSettings :: settings_t

text \<open>
  Modelled from the spec: the class \<^verbatim>\<open>ClientPool\<close> of \<^verbatim>\<open>./pool\<close> is not among
  the sources. A pool has a ceiling of concurrent operations per handle and an ordered
  collection of handles with their in-flight counts; \<open>poolNo\<close> is the identity of the
  pool object.
\<close>

record pool =
  poolNo :: nat
  concurrentOperationLimit :: nat
  activeClients :: "(client \<times> nat) list"

text \<open>
  The promise stored in \<^verbatim>\<open>_clientInitialized\<close>. While it is pending it holds what
  its callbacks closed over: the pool that \<^verbatim>\<open>_initClientPool\<close> created and, when the
  project ID has to be detected, the client that is asked for it.
\<close>

datatype init_status = Pending pool "client option" | Fulfilled | Rejected err

record init_promise =
  promiseNo :: nat
  status :: init_status

record firestore =
  clientPool :: "pool option"
  settingsFrozen :: bool
  clientInitialized :: "init_promise option"
  initalizationSettings :: settings_t
  timestampsInSnapshotsEnabled :: bool
  referencePath :: resource_path
  preferTransactions :: bool
  lastSuccessfulRequest :: "nat option"

text \<open>
  \<^verbatim>\<open>validateAndApplySettings(settings)\<close>. \<^verbatim>\<open>!!settings.timestampsInSnapshots\<close> is
  true for the value \<^verbatim>\<open>true\<close> only; \<^verbatim>\<open>settings.projectId\<close> is truthy for a string
  that is not empty.
\<close>

definition validateAndApplySettings :: "settings_t \<Rightarrow> firestore \<Rightarrow> firestore" where
  "validateAndApplySettings st f =
     f\<lparr>timestampsInSnapshotsEnabled := (timestampsInSnapshots st = Some True),
       referencePath :=
         (case projectId st of
            Some p \<Rightarrow>
              if p \<noteq> [] then \<lparr>pathProjectId = p, databaseId = ''(default)''\<rparr>
              else \<lparr>pathProjectId = ''{{projectId}}'', databaseId = ''(default)''\<rparr>
          | None \<Rightarrow> \<lparr>pathProjectId = ''{{projectId}}'', databaseId = ''(default)''\<rparr>),
       initalizationSettings := st\<rparr>"

text \<open>
  \<^verbatim>\<open>new Firestore(settings)\<close>. \<open>libVersion\<close> is read from the package file and
  \<open>functionTriggerType\<close> is the environment variable \<^verbatim>\<open>FUNCTION_TRIGGER_TYPE\<close>.
\<close>

definition constructor :: "string \<Rightarrow> string option \<Rightarrow> settings_t \<Rightarrow> firestore" where
  "constructor libVersion functionTriggerType st =
     (let st' = extend_settings st
            \<lparr>projectId = None, timestampsInSnapshots = None,
             otherSettings = [''libName'' \<mapsto> ''gccl'', ''libVersion'' \<mapsto> libVersion]\<rparr>;
          f = \<lparr>clientPool = None, settingsFrozen = False, clientInitialized = None,
               initalizationSettings = st', timestampsInSnapshotsEnabled = False,
               referencePath = \<lparr>pathProjectId = [], databaseId = []\<rparr>,
               preferTransactions = False, lastSuccessfulRequest = None\<rparr>
      in (validateAndApplySettings st' f)
           \<lparr>preferTransactions := (functionTriggerType \<noteq> None), lastSuccessfulRequest := None\<rparr>)"

definition already_started :: err where
  "already_started =
     \<lparr>code = None,
      message = ''Firestore has already been started and its settings can no longer be changed. You can only call settings() before calling any other methods on a Firestore object.''\<rparr>"

definition already_called :: err where
  "already_called =
     \<lparr>code = None,
      message = ''Firestore.settings() has already be called. You can only call settings() once, and only before calling any other methods on a Firestore object.''\<rparr>"

text \<open>
  \<^verbatim>\<open>settings(settings)\<close>. The result is the exception thrown, if any, and the instance
  after the call.
\<close>

definition settings :: "settings_t \<Rightarrow> firestore \<Rightarrow> err option \<times> firestore" where
  "settings st f =
     (if clientInitialized f \<noteq> None then (Some already_started, f)
      else if settingsFrozen f then (Some already_called, f)
      else
        (let mergedSettings = extend_settings (initalizationSettings f) st
         in (None, (validateAndApplySettings mergedSettings f)\<lparr>settingsFrozen := True\<rparr>)))"

section \<open>The retry helper \<^verbatim>\<open>_retry\<close>\<close>

text \<open>
  The state threaded through the asynchronous code. \<open>inst\<close> is the instance
  (\<^verbatim>\<open>this\<close>); \<open>world\<close> is everything outside the library (backend, transport, clock),
  on which the calls to the GAPIC client act. The other fields record what the code did:
  \<open>delays\<close> lists the delays handed to \<^verbatim>\<open>setTimeout\<close> by \<^verbatim>\<open>_retry\<close>, oldest
  first; \<open>calls\<close> counts the invocations of the retried function; \<open>initCalls\<close> counts
  the invocations of \<^verbatim>\<open>_initClientPool\<close>; \<open>allocated\<close> numbers the pool and promise
  objects created so far.
\<close>

record 'w state =
  inst :: firestore
  world :: 'w
  delays :: "nat list"
  calls :: nat
  initCalls :: nat
  allocated :: nat

text \<open>
  \<^verbatim>\<open>delayMs || d\<close>: the default \<open>d\<close> is taken when \<^verbatim>\<open>delayMs\<close> is undefined
  and also when it is the falsy number 0.
\<close>

definition or_default :: "nat option \<Rightarrow> nat \<Rightarrow> nat" where
  "or_default v d = (case v of None \<Rightarrow> d | Some n \<Rightarrow> if n = 0 then d else n)"

text \<open>
  \<^verbatim>\<open>_retry(attemptsRemaining, requestTag, func, delayMs)\<close>. \<open>now\<close> reads the clock
  (\<^verbatim>\<open>new Date().getTime()\<close>) and \<open>func\<close> is the retried function, which settles
  with a value or an error and changes the world. The test
  \<^verbatim>\<open>attemptsRemaining === 0\<close> is an equality on a number that was decremented first, so
  a call with a budget below 1 never meets it: the recursion is not bounded in general
  and the result is an option, \<open>None\<close> for a chain that never settles. Logging is a no-op
  by default and is left out.
\<close>

partial_function (option) retry ::
  "('w \<Rightarrow> nat) \<Rightarrow> ('w \<Rightarrow> 'a settled \<times> 'w) \<Rightarrow> int \<Rightarrow> nat option \<Rightarrow> 'w state
     \<Rightarrow> ('a settled \<times> 'w state) option"
where
  "retry now func attemptsRemaining delayMs s =
     (let currentDelay = or_default delayMs 0;
          nextDelay = or_default delayMs 100;
          attemptsRemaining' = attemptsRemaining - 1;
          s1 = s\<lparr>delays := delays s @ [currentDelay]\<rparr>;
          s2 = s1\<lparr>calls := calls s1 + 1, world := snd (func (world s1))\<rparr>
      in case fst (func (world s1)) of
           Inr result \<Rightarrow>
             Some (Inr result,
                   s2\<lparr>inst := (inst s2)\<lparr>lastSuccessfulRequest := Some (now (world s2))\<rparr>\<rparr>)
         | Inl e \<Rightarrow>
             if code e \<noteq> None \<and> code e \<noteq> Some GRPC_UNAVAILABLE then Some (Inl e, s2)
             else if attemptsRemaining' = 0 then Some (Inl e, s2)
             else retry now func attemptsRemaining' (Some nextDelay) s2)"

text \<open>An error is transient when it has no defined code or the code UNAVAILABLE.\<close>

definition transient :: "err \<Rightarrow> bool" where
  "transient e = (code e = None \<or> code e = Some GRPC_UNAVAILABLE)"

text \<open>
  \<open>fails_then_succeeds func w k v\<close>: started in the world \<open>w\<close>, the first \<open>k\<close>
  invocations of \<open>func\<close> fail with transient errors and the next one succeeds with \<open>v\<close>.
\<close>

fun fails_then_succeeds :: "('w \<Rightarrow> 'a settled \<times> 'w) \<Rightarrow> 'w \<Rightarrow> nat \<Rightarrow> 'a \<Rightarrow> bool" where
  "fails_then_succeeds func w 0 v = (fst (func w) = Inr v)"
| "fails_then_succeeds func w (Suc k) v =
     (case fst (func w) of
        Inl e \<Rightarrow> transient e \<and> fails_then_succeeds func (snd (func w)) k v
      | Inr _ \<Rightarrow> False)"

section \<open>The stream initializer \<^verbatim>\<open>_initializeStream\<close>\<close>

text \<open>
  What the stream may signal to the listeners that \<^verbatim>\<open>_initializeStream\<close> registers,
  and the two callbacks it hands out: \<open>WriteDone\<close> is the callback of
  \<^verbatim>\<open>resultStream.write\<close>, \<open>Timeout\<close> the callback of \<^verbatim>\<open>setTimeout(..., 0)\<close>.
\<close>

datatype signal = Readable | End | Error err | WriteDone | Timeout

text \<open>A call of \<^verbatim>\<open>resultStream.emit\<close> made by the initializer.\<close>

datatype emitted = EmitError err | EmitEnd

text \<open>
  The three variables of the closure and what the code did so far: \<open>settlements\<close> lists
  the calls of \<^verbatim>\<open>reject(err)\<close> (\<open>Inl err\<close>) and \<^verbatim>\<open>resolve(resultStream)\<close>
  (\<open>Inr ()\<close>), oldest first, of which the promise keeps the first; \<open>emits\<close> lists the
  calls of \<^verbatim>\<open>resultStream.emit\<close>; \<open>pauses\<close> counts the calls of
  \<^verbatim>\<open>resultStream.pause()\<close>; \<open>timers\<close> and \<open>writes\<close> count the callbacks given to
  \<^verbatim>\<open>setTimeout\<close> and to \<^verbatim>\<open>resultStream.write\<close> that have not run yet.
\<close>

record stream_init =
  errorReceived :: "err option"
  streamReleased :: bool
  endCalled :: bool
  settlements :: "(err + unit) list"
  emits :: "emitted list"
  pauses :: nat
  timers :: nat
  writes :: nat

text \<open>The listener for \<^verbatim>\<open>'error'\<close>.\<close>

definition on_error :: "err \<Rightarrow> stream_init \<Rightarrow> stream_init" where
  "on_error e s =
     (if \<not> streamReleased s
      then s\<lparr>streamReleased := True, settlements := settlements s @ [Inl e]\<rparr>
      else s\<lparr>errorReceived := Some e\<rparr>)"

text \<open>
  \<^verbatim>\<open>resultStream.emit('error', err)\<close> runs the listeners of the stream at once, the
  initializer's own among them.
\<close>

definition emit_error :: "err \<Rightarrow> stream_init \<Rightarrow> stream_init" where
  "emit_error e s = on_error e (s\<lparr>emits := emits s @ [EmitError e]\<rparr>)"

text \<open>\<^verbatim>\<open>releaseStream()\<close>.\<close>

definition releaseStream :: "stream_init \<Rightarrow> stream_init" where
  "releaseStream s =
     (case errorReceived s of
        Some e \<Rightarrow> (emit_error e s)\<lparr>errorReceived := None\<rparr>
      | None \<Rightarrow>
          if \<not> streamReleased s
          then s\<lparr>streamReleased := True, pauses := pauses s + 1,
                 settlements := settlements s @ [Inr ()], timers := timers s + 1\<rparr>
          else s)"

text \<open>The listeners for \<^verbatim>\<open>'readable'\<close> and \<^verbatim>\<open>'end'\<close>.\<close>

definition on_readable :: "stream_init \<Rightarrow> stream_init" where
  "on_readable s = releaseStream s"

definition on_end :: "stream_init \<Rightarrow> stream_init" where
  "on_end s = releaseStream (s\<lparr>endCalled := True\<rparr>)"

text \<open>\<^verbatim>\<open>resultStream.emit('end')\<close>, which the initializer's own listener hears too.\<close>

definition emit_end :: "stream_init \<Rightarrow> stream_init" where
  "emit_end s = on_end (s\<lparr>emits := emits s @ [EmitEnd]\<rparr>)"

text \<open>The callback given to \<^verbatim>\<open>setTimeout\<close> when the stream is released.\<close>

definition on_timeout :: "stream_init \<Rightarrow> stream_init" where
  "on_timeout s = (if endCalled s then emit_end s else s)"

text \<open>
  One signal. A callback runs only if it was handed out and has not run: a \<open>Timeout\<close>
  with no timer scheduled and a \<open>WriteDone\<close> with no write under way do not occur and
  leave the state as it is.
\<close>

fun handle :: "stream_init \<Rightarrow> signal \<Rightarrow> stream_init" where
  "handle s Readable = on_readable s"
| "handle s End = on_end s"
| "handle s (Error e) = on_error e s"
| "handle s WriteDone =
     (if 0 < writes s then releaseStream (s\<lparr>writes := writes s - 1\<rparr>) else s)"
| "handle s Timeout =
     (if 0 < timers s then on_timeout (s\<lparr>timers := timers s - 1\<rparr>) else s)"

text \<open>
  \<^verbatim>\<open>_initializeStream(resultStream, requestTag, request)\<close> up to its return: the
  listeners are registered and, if a request is given, it is written to the stream.
  \<open>hasRequest\<close> says whether \<^verbatim>\<open>request\<close> is defined.
\<close>

definition initializeStream :: "bool \<Rightarrow> stream_init" where
  "initializeStream hasRequest =
     \<lparr>errorReceived = None, streamReleased = False, endCalled = False, settlements = [],
      emits = [], pauses = 0, timers = 0, writes = (if hasRequest then 1 else 0)\<rparr>"

text \<open>The initializer after the signals \<open>sigs\<close>, oldest first.\<close>

definition after :: "bool \<Rightarrow> signal list \<Rightarrow> stream_init" where
  "after hasRequest sigs = foldl handle (initializeStream hasRequest) sigs"

text \<open>The promise returned: pending, rejected with an error, or resolved with the stream.\<close>

definition promise :: "stream_init \<Rightarrow> (err + unit) option" where
  "promise s = (case settlements s of [] \<Rightarrow> None | x # _ \<Rightarrow> Some x)"

section \<open>Observations on the stream initializer\<close>

text \<open>How often the initializer has emitted \<^verbatim>\<open>'end'\<close>.\<close>

definition ends_emitted :: "stream_init \<Rightarrow> nat" where
  "ends_emitted s = count_list (emits s) EmitEnd"

text \<open>
  What holds of the initializer after any signals: as long as the flag
  \<^verbatim>\<open>streamReleased\<close> is unset nothing was settled, emitted, scheduled or buffered; the
  promise is settled once when the flag is set; and one callback at most forwards the end.
\<close>

definition stream_inv :: "stream_init \<Rightarrow> bool" where
  "stream_inv s =
     ((streamReleased s \<or> settlements s = [] \<and> emits s = [] \<and> timers s = 0 \<and> errorReceived s = None)
      \<and> length (settlements s) = (if streamReleased s then 1 else 0)
      \<and> timers s + count_list (emits s) EmitEnd \<le> 1)"

text \<open>
  The two stages of forwarding an end that was seen before the release: the timer is
  scheduled and nothing is forwarded yet; the timer has run and the end is forwarded.
\<close>

definition awaiting_forward :: "stream_init \<Rightarrow> bool" where
  "awaiting_forward s =
     (streamReleased s \<and> timers s = 1 \<and> endCalled s \<and> count_list (emits s) EmitEnd = 0)"

definition forwarded :: "stream_init \<Rightarrow> bool" where
  "forwarded s = (streamReleased s \<and> timers s = 0 \<and> count_list (emits s) EmitEnd = 1)"

text \<open>
  The number of \<^verbatim>\<open>'error'\<close> events carrying \<open>e\<close> on the stream during the signals
  \<open>sigs\<close>, each of which calls every listener registered on the stream: those of the
  transport and those that the initializer emits itself with \<^verbatim>\<open>resultStream.emit\<close>.
\<close>

definition error_events :: "bool \<Rightarrow> signal list \<Rightarrow> err \<Rightarrow> nat" where
  "error_events hasRequest sigs e =
     count_list sigs (Error e) + count_list (emits (after hasRequest sigs)) (EmitError e)"

section \<open>Batch get: \<^verbatim>\<open>snapshot_\<close> and \<^verbatim>\<open>getAll_\<close>\<close>

text \<open>
  A document reference, as far as \<^verbatim>\<open>getAll_\<close> reads it: the name sent to the
  backend and the path that keys the results.
\<close>

record document_reference =
  formattedName :: string
  path :: string

text \<open>
  A \<^verbatim>\<open>Document\<close> proto (the fields and the two times are not looked into) and a
  response of \<^verbatim>\<open>batchGetDocuments\<close>: \<open>found\<close> is the document, if there is one, and
  \<open>missing\<close> the name of a document that does not exist.
\<close>

record 'c document =
  name :: string
  content :: 'c

record 'c response =
  found :: "'c document option"
  missing :: string
  readTime :: "nat option"

text \<open>A snapshot built by \<^verbatim>\<open>DocumentSnapshot.Builder\<close>.\<close>

record 'c snapshot =
  ref :: document_reference
  fieldsProto :: "'c option"
  snapshotReadTime :: "nat option"

text \<open>
  \<^verbatim>\<open>snapshot_(documentOrName, readTime)\<close> with the default encoding. \<open>fromName\<close> is
  \<^verbatim>\<open>new DocumentReference(this, ResourcePath.fromSlashSeparatedString(name))\<close>, which
  throws on a name that is not a resource path.
\<close>

definition snapshot_of ::
  "(string \<Rightarrow> document_reference settled) \<Rightarrow> 'c document + string \<Rightarrow> nat option
     \<Rightarrow> 'c snapshot settled"
where
  "snapshot_of fromName documentOrName rt =
     (case documentOrName of
        Inr nm \<Rightarrow>
          (case fromName nm of
             Inl e \<Rightarrow> Inl e
           | Inr r \<Rightarrow> Inr \<lparr>ref = r, fieldsProto = None, snapshotReadTime = rt\<rparr>)
      | Inl doc \<Rightarrow>
          (case fromName (name doc) of
             Inl e \<Rightarrow> Inl e
           | Inr r \<Rightarrow> Inr \<lparr>ref = r, fieldsProto = Some (content doc), snapshotReadTime = rt\<rparr>))"

text \<open>The request of \<^verbatim>\<open>batchGetDocuments\<close>.\<close>

record 't batch_request =
  database :: string
  transaction :: "'t option"
  documents :: "string list"

text \<open>
  \<^verbatim>\<open>requestedDocuments.add(...)\<close> for each reference and then
  \<^verbatim>\<open>Array.from(requestedDocuments)\<close>: a \<^verbatim>\<open>Set\<close> keeps the order of the first
  insertions.
\<close>

fun requestedDocuments :: "string list \<Rightarrow> document_reference list \<Rightarrow> string list" where
  "requestedDocuments acc [] = acc"
| "requestedDocuments acc (docRef # docRefs) =
     requestedDocuments
       (if formattedName docRef \<in> set acc then acc else acc @ [formattedName docRef]) docRefs"

text \<open>What the stream handed out by \<^verbatim>\<open>readStream\<close> does once it is resumed.\<close>

datatype 'c stream_event = OnError err | OnData "'c response" | OnEnd

text \<open>
  The promise that \<^verbatim>\<open>getAll_\<close> builds on the stream, \<open>None\<close> while it is pending, and
  the map \<^verbatim>\<open>retrievedDocuments\<close>. The array \<^verbatim>\<open>orderedDocuments\<close> takes whatever
  \<^verbatim>\<open>retrievedDocuments.get\<close> returns, \<^verbatim>\<open>undefined\<close> (\<open>None\<close>) included.
\<close>

record 'c batch_get =
  outcome :: "'c snapshot option list settled option"
  retrievedDocuments :: "string \<rightharpoonup> 'c snapshot"

text \<open>\<^verbatim>\<open>resolve\<close> and \<^verbatim>\<open>reject\<close> settle a promise that is pending and no other.\<close>

definition settle :: "'a settled \<Rightarrow> 'a settled option \<Rightarrow> 'a settled option" where
  "settle x p = (case p of None \<Rightarrow> Some x | Some y \<Rightarrow> Some y)"

definition did_not_receive :: "string \<Rightarrow> err" where
  "did_not_receive p =
     \<lparr>code = None,
      message = ''Did not receive document for '' @ [CHR 0x22] @ p @ [CHR 0x22] @ ''.''\<rparr>"

text \<open>
  The loop of the listener for \<^verbatim>\<open>'end'\<close>: a reference without a result rejects the
  promise, and the loop goes on.
\<close>

fun orderDocuments ::
  "'c batch_get \<Rightarrow> 'c snapshot option list \<Rightarrow> document_reference list
     \<Rightarrow> 'c batch_get \<times> 'c snapshot option list"
where
  "orderDocuments s orderedDocuments [] = (s, orderedDocuments)"
| "orderDocuments s orderedDocuments (docRef # docRefs) =
     (let document = retrievedDocuments s (path docRef);
          s' = (if document = None
                then s\<lparr>outcome := settle (Inl (did_not_receive (path docRef))) (outcome s)\<rparr>
                else s)
      in orderDocuments s' (orderedDocuments @ [document]) docRefs)"

text \<open>The three listeners that \<^verbatim>\<open>getAll_\<close> registers.\<close>

fun on_event ::
  "(string \<Rightarrow> document_reference settled) \<Rightarrow> document_reference list \<Rightarrow> 'c batch_get
     \<Rightarrow> 'c stream_event \<Rightarrow> 'c batch_get"
where
  "on_event fromName docRefs s (OnError e) = s\<lparr>outcome := settle (Inl e) (outcome s)\<rparr>"
| "on_event fromName docRefs s (OnData resp) =
     (case (case found resp of
              Some doc \<Rightarrow> snapshot_of fromName (Inl doc) (readTime resp)
            | None \<Rightarrow> snapshot_of fromName (Inr (missing resp)) (readTime resp)) of
        Inr document \<Rightarrow>
          s\<lparr>retrievedDocuments := (retrievedDocuments s)(path (ref document) \<mapsto> document)\<rparr>
      | Inl e \<Rightarrow> s\<lparr>outcome := settle (Inl e) (outcome s)\<rparr>)"
| "on_event fromName docRefs s OnEnd =
     (case orderDocuments s [] docRefs of
        (s', orderedDocuments) \<Rightarrow> s'\<lparr>outcome := settle (Inr orderedDocuments) (outcome s')\<rparr>)"

definition consume ::
  "(string \<Rightarrow> document_reference settled) \<Rightarrow> document_reference list \<Rightarrow> 'c stream_event list
     \<Rightarrow> 'c batch_get"
where
  "consume fromName docRefs events =
     foldl (on_event fromName docRefs) \<lparr>outcome = None, retrievedDocuments = Map.empty\<rparr> events"

text \<open>
  \<^verbatim>\<open>getAll_(docRefs, requestTag, transactionId)\<close> on an instance whose
  \<^verbatim>\<open>formattedName\<close> is \<open>db\<close>. \<open>readStream\<close> stands for
  \<^verbatim>\<open>self.readStream('batchGetDocuments', request, requestTag, true)\<close>: it is rejected or
  hands out a stream, given here by its events. The result is the request that was issued
  and the promise returned, \<open>None\<close> if it stays pending.
\<close>

definition getAll ::
  "string \<Rightarrow> (string \<Rightarrow> document_reference settled)
     \<Rightarrow> ('t batch_request \<Rightarrow> 'c stream_event list settled)
     \<Rightarrow> document_reference list \<Rightarrow> 't option
     \<Rightarrow> 't batch_request \<times> 'c snapshot option list settled option"
where
  "getAll db fromName readStream docRefs transactionId =
     (let request =
            \<lparr>database = db, transaction = transactionId,
             documents = requestedDocuments [] docRefs\<rparr>
      in (request,
          case readStream request of
            Inl e \<Rightarrow> Some (Inl e)
          | Inr events \<Rightarrow> outcome (consume fromName docRefs events)))"

section \<open>Observations on batch get\<close>

text \<open>Every result is stored under the path of its own reference.\<close>

definition keyed_by_path :: "'c batch_get \<Rightarrow> bool" where
  "keyed_by_path s = (\<forall>p d. retrievedDocuments s p = Some d \<longrightarrow> path (ref d) = p)"

text \<open>The promise of \<^verbatim>\<open>getAll_\<close> is pending or rejected.\<close>

definition unresolved :: "'c batch_get \<Rightarrow> bool" where
  "unresolved s = (case outcome s of None \<Rightarrow> True | Some (Inl e) \<Rightarrow> True | Some (Inr v) \<Rightarrow> False)"


section \<open>The transaction coordinator \<^verbatim>\<open>runTransaction\<close>\<close>

text \<open>
  \<^verbatim>\<open>new Transaction(this, previousTransaction)\<close>. The class is not among the sources;
  of a transaction object the coordinator uses its identity, here the number of its
  construction, and the transaction it was constructed with.
\<close>

datatype transaction = Transaction (txNo: nat) (previous: "transaction option")

text \<open>The argument \<^verbatim>\<open>transactionOptions\<close>.\<close>

record transaction_options =
  maxAttempts :: "int option"
  previousTransaction :: "transaction option"

text \<open>
  What \<^verbatim>\<open>updateFunction(transaction)\<close> does: it throws, returns something that is
  not a promise, or returns a promise, given by how it settles.
\<close>

datatype 'a callback_result = Throws err | NotAPromise | Returns "'a settled"

text \<open>
  The collaborators of the coordinator, acting on the backend \<open>'w\<close>: the methods
  \<^verbatim>\<open>begin\<close>, \<^verbatim>\<open>commit\<close> and \<^verbatim>\<open>rollback\<close> of a transaction, each given by how
  the promise it returns settles, and
  \<^verbatim>\<open>validate.isOptionalInteger('transactionOptions.maxAttempts', value, 1)\<close>, given by the
  exception it throws, if any.
\<close>

record 'w collaborators =
  begin_tx :: "transaction \<Rightarrow> 'w \<Rightarrow> unit settled \<times> 'w"
  commit_tx :: "transaction \<Rightarrow> 'w \<Rightarrow> unit settled \<times> 'w"
  rollback_tx :: "transaction \<Rightarrow> 'w \<Rightarrow> unit settled \<times> 'w"
  isOptionalInteger :: "int option \<Rightarrow> err option"

text \<open>A call that the coordinator makes.\<close>

datatype tx_call = Begin transaction | Run transaction | Commit transaction | Rollback transaction

text \<open>
  The backend, the calls made so far, oldest first, and the number of transaction objects
  constructed so far.
\<close>

record 'w tx_state =
  backend :: 'w
  history :: "tx_call list"
  constructed :: nat

definition must_return_promise :: err where
  "must_return_promise =
     \<lparr>code = None, message = ''You must return a Promise in your transaction()-callback.''\<rparr>"

text \<open>\<^verbatim>\<open>transactionOptions.maxAttempts || attemptsRemaining\<close>.\<close>

definition maxAttempts_or :: "int option \<Rightarrow> int \<Rightarrow> int" where
  "maxAttempts_or v d = (case v of None \<Rightarrow> d | Some n \<Rightarrow> if n = 0 then d else n)"

text \<open>The attempts that a call of \<^verbatim>\<open>runTransaction\<close> starts with.\<close>

definition budget :: "transaction_options option \<Rightarrow> int" where
  "budget transactionOptions =
     (case transactionOptions of None \<Rightarrow> 5 | Some opts \<Rightarrow> maxAttempts_or (maxAttempts opts) 5)"

text \<open>
  \<^verbatim>\<open>runTransaction(updateFunction, transactionOptions)\<close>. An exception thrown before
  the promise chain is built and a rejection of the promise returned are both \<open>Inl\<close>.
\<close>

function runTransaction ::
  "'w collaborators \<Rightarrow> (transaction \<Rightarrow> 'w \<Rightarrow> 'a callback_result \<times> 'w)
     \<Rightarrow> transaction_options option \<Rightarrow> 'w tx_state \<Rightarrow> 'a settled \<times> 'w tx_state"
where
  "runTransaction env updateFunction transactionOptions s =
     (case (case transactionOptions of
              None \<Rightarrow> None
            | Some opts \<Rightarrow> isOptionalInteger env (maxAttempts opts)) of
        Some e \<Rightarrow> (Inl e, s)
      | None \<Rightarrow>
          (let attemptsRemaining = budget transactionOptions - 1;
               transaction =
                 Transaction (constructed s)
                   (case transactionOptions of
                      None \<Rightarrow> None
                    | Some opts \<Rightarrow> previousTransaction opts);
               s0 = s\<lparr>constructed := constructed s + 1\<rparr>;
               s1 = s0\<lparr>history := history s0 @ [Begin transaction],
                       backend := snd (begin_tx env transaction (backend s0))\<rparr>
           in case fst (begin_tx env transaction (backend s0)) of
                Inl e \<Rightarrow> (Inl e, s1)
              | Inr _ \<Rightarrow>
                  (let s2 = s1\<lparr>history := history s1 @ [Run transaction],
                               backend := snd (updateFunction transaction (backend s1))\<rparr>
                   in case fst (updateFunction transaction (backend s1)) of
                        Throws e \<Rightarrow> (Inl e, s2)
                      | returned \<Rightarrow>
                          (case (case returned of
                                   Returns r \<Rightarrow> r
                                 | _ \<Rightarrow> Inl must_return_promise) of
                             Inl err \<Rightarrow>
                               (let s3 = s2\<lparr>history := history s2 @ [Rollback transaction],
                                            backend := snd (rollback_tx env transaction (backend s2))\<rparr>
                                in case fst (rollback_tx env transaction (backend s2)) of
                                     Inl e \<Rightarrow> (Inl e, s3)
                                   | Inr _ \<Rightarrow> (Inl err, s3))
                           | Inr result \<Rightarrow>
                               (let s3 = s2\<lparr>history := history s2 @ [Commit transaction],
                                            backend := snd (commit_tx env transaction (backend s2))\<rparr>
                                in case fst (commit_tx env transaction (backend s2)) of
                                     Inr _ \<Rightarrow> (Inr result, s3)
                                   | Inl err \<Rightarrow>
                                       if attemptsRemaining > 0
                                       then runTransaction env updateFunction
                                              (Some \<lparr>maxAttempts = Some attemptsRemaining,
                                                     previousTransaction = Some transaction\<rparr>)
                                              s3
                                       else (Inl err, s3))))))"
  by pat_completeness auto
termination
  by (relation "measure (\<lambda>(env, updateFunction, transactionOptions, s). nat (budget transactionOptions))")
    (auto simp: budget_def maxAttempts_or_def)

declare runTransaction.simps [simp del]

section \<open>Observations on the transaction coordinator\<close>

text \<open>The backend after the calls of one attempt with the transaction \<open>t\<close>.\<close>

definition after_begin :: "'w collaborators \<Rightarrow> transaction \<Rightarrow> 'w \<Rightarrow> 'w" where
  "after_begin env t w = snd (begin_tx env t w)"

definition after_run ::
  "'w collaborators \<Rightarrow> (transaction \<Rightarrow> 'w \<Rightarrow> 'a callback_result \<times> 'w) \<Rightarrow> transaction \<Rightarrow> 'w \<Rightarrow> 'w"
where
  "after_run env updateFunction t w = snd (updateFunction t (after_begin env t w))"

definition after_commit ::
  "'w collaborators \<Rightarrow> (transaction \<Rightarrow> 'w \<Rightarrow> 'a callback_result \<times> 'w) \<Rightarrow> transaction \<Rightarrow> 'w \<Rightarrow> 'w"
where
  "after_commit env updateFunction t w =
     snd (commit_tx env t (after_run env updateFunction t w))"

text \<open>
  An attempt with the transaction \<open>t\<close>, started on the backend \<open>w\<close>, in which
  \<^verbatim>\<open>begin\<close> succeeds, the promise of the function is fulfilled with \<open>v\<close> and
  \<^verbatim>\<open>commit\<close> settles as \<open>c\<close>.
\<close>

definition attempt ::
  "'w collaborators \<Rightarrow> (transaction \<Rightarrow> 'w \<Rightarrow> 'a callback_result \<times> 'w) \<Rightarrow> transaction \<Rightarrow> 'w
     \<Rightarrow> 'a \<Rightarrow> unit settled \<Rightarrow> bool"
where
  "attempt env updateFunction t w v c =
     (fst (begin_tx env t w) = Inr ()
      \<and> fst (updateFunction t (after_begin env t w)) = Returns (Inr v)
      \<and> fst (commit_tx env t (after_run env updateFunction t w)) = c)"

text \<open>The same with a commit that fails, whatever the function returned.\<close>

definition conflict ::
  "'w collaborators \<Rightarrow> (transaction \<Rightarrow> 'w \<Rightarrow> 'a callback_result \<times> 'w) \<Rightarrow> transaction \<Rightarrow> 'w \<Rightarrow> bool"
where
  "conflict env updateFunction t w =
     (fst (begin_tx env t w) = Inr ()
      \<and> (case fst (updateFunction t (after_begin env t w)) of
            Returns (Inr v) \<Rightarrow> True | _ \<Rightarrow> False)
      \<and> (case fst (commit_tx env t (after_run env updateFunction t w)) of
            Inl e \<Rightarrow> True | Inr u \<Rightarrow> False))"

text \<open>The transaction that the coordinator constructs after a failed commit of \<open>t\<close>.\<close>

definition successor :: "transaction \<Rightarrow> transaction" where
  "successor t = Transaction (txNo t + 1) (Some t)"

text \<open>
  \<open>conflicts_then_commits ... k v\<close>: the commits of \<open>k\<close> attempts in a row fail and the next
  attempt commits, its function having returned \<open>v\<close>.
  \<open>conflicts_throughout ... k e\<close>: the commits of \<open>k + 1\<close> attempts in a row fail, the last
  with the error \<open>e\<close>.
\<close>

fun conflicts_then_commits ::
  "'w collaborators \<Rightarrow> (transaction \<Rightarrow> 'w \<Rightarrow> 'a callback_result \<times> 'w) \<Rightarrow> transaction \<Rightarrow> 'w
     \<Rightarrow> nat \<Rightarrow> 'a \<Rightarrow> bool"
where
  "conflicts_then_commits env updateFunction t w 0 v = attempt env updateFunction t w v (Inr ())"
| "conflicts_then_commits env updateFunction t w (Suc k) v =
     (conflict env updateFunction t w
      \<and> conflicts_then_commits env updateFunction (successor t)
          (after_commit env updateFunction t w) k v)"

fun conflicts_throughout ::
  "'w collaborators \<Rightarrow> (transaction \<Rightarrow> 'w \<Rightarrow> 'a callback_result \<times> 'w) \<Rightarrow> transaction \<Rightarrow> 'w
     \<Rightarrow> nat \<Rightarrow> err \<Rightarrow> bool"
where
  "conflicts_throughout env updateFunction t w 0 e =
     (conflict env updateFunction t w
      \<and> fst (commit_tx env t (after_run env updateFunction t w)) = Inl e)"
| "conflicts_throughout env updateFunction t w (Suc k) e =
     (conflict env updateFunction t w
      \<and> conflicts_throughout env updateFunction (successor t)
          (after_commit env updateFunction t w) k e)"

text \<open>The calls of \<open>k + 1\<close> begin/run/commit cycles, the first with the transaction \<open>t\<close>.\<close>

fun cycles :: "transaction \<Rightarrow> nat \<Rightarrow> tx_call list" where
  "cycles t 0 = [Begin t, Run t, Commit t]"
| "cycles t (Suc k) = [Begin t, Run t, Commit t] @ cycles (successor t) k"

text \<open>The transaction that a call of \<^verbatim>\<open>runTransaction\<close> constructs.\<close>

definition first_transaction :: "transaction_options option \<Rightarrow> 'w tx_state \<Rightarrow> transaction" where
  "first_transaction transactionOptions s =
     Transaction (constructed s)
       (case transactionOptions of None \<Rightarrow> None | Some opts \<Rightarrow> previousTransaction opts)"

text \<open>The validation of \<^verbatim>\<open>transactionOptions\<close> throws nothing.\<close>

definition accepted :: "'w collaborators \<Rightarrow> transaction_options option \<Rightarrow> bool" where
  "accepted env transactionOptions =
     (case transactionOptions of
        None \<Rightarrow> True
      | Some opts \<Rightarrow> isOptionalInteger env (maxAttempts opts) = None)"

section \<open>Client initialization and \<^verbatim>\<open>request\<close>\<close>

text \<open>
  Modelled from the spec: \<^verbatim>\<open>ClientPool.run(operation)\<close> of \<^verbatim>\<open>./pool\<close>, which is not
  among the sources. \<open>acquire\<close> picks a handle whose in-flight count is below the ceiling
  (the first one) or, if there is none, has the factory create one, and counts the
  operation in; \<open>release\<close> counts it out when the future of the operation has settled. The
  factory is \<^verbatim>\<open>module.exports.v1beta1(this._initalizationSettings)\<close>.
\<close>

definition acquire :: "settings_t \<Rightarrow> pool \<Rightarrow> client \<times> pool" where
  "acquire st p =
     (case find (\<lambda>(c, n). n < concurrentOperationLimit p) (activeClients p) of
        Some (c, n) \<Rightarrow>
          (c, p\<lparr>activeClients :=
                  map (\<lambda>(c', n'). if clientNo c' = clientNo c then (c', n' + 1) else (c', n'))
                    (activeClients p)\<rparr>)
      | None \<Rightarrow>
          (let c = \<lparr>clientNo = length (activeClients p), clientSettings = st\<rparr>
           in (c, p\<lparr>activeClients := activeClients p @ [(c, 1)]\<rparr>)))"

definition release :: "client \<Rightarrow> pool \<Rightarrow> pool" where
  "release c p =
     p\<lparr>activeClients :=
         map (\<lambda>(c', n'). if clientNo c' = clientNo c then (c', n' - 1) else (c', n'))
           (activeClients p)\<rparr>"

text \<open>
  What the library calls outside itself: the clock, \<^verbatim>\<open>gapicClient.getProjectId\<close>, a
  unary method \<^verbatim>\<open>gapicClient[methodName]\<close> (each given by how its callback is called and
  by what it does to the world), \<^verbatim>\<open>common.util.replaceProjectIdToken\<close> and the getter
  \<^verbatim>\<open>formattedName\<close> of a resource path.
\<close>

record ('w, 'r, 'a) gapic =
  getTime :: "'w \<Rightarrow> nat"
  getProjectId :: "client \<Rightarrow> 'w \<Rightarrow> string settled \<times> 'w"
  unary :: "client \<Rightarrow> string \<Rightarrow> 'r \<Rightarrow> (string \<times> string) list \<Rightarrow> 'w \<Rightarrow> 'a settled \<times> 'w"
  replaceProjectIdToken :: "'r \<Rightarrow> string \<Rightarrow> 'r"
  pathFormattedName :: "resource_path \<Rightarrow> string"

definition assertion_failed :: err where
  "assertion_failed = \<lparr>code = None, message = ''Client pool already initialized''\<rparr>"

text \<open>
  \<^verbatim>\<open>_initClientPool()\<close> up to its return: the exception of the assertion, or the promise
  it returns, which is pending on the detection of the project ID or has only its
  callbacks left to run.
\<close>

definition initClientPool :: "'w state \<Rightarrow> (err + init_status) \<times> 'w state" where
  "initClientPool s =
     (if clientInitialized (inst s) \<noteq> None
      then (Inl assertion_failed, s\<lparr>initCalls := initCalls s + 1\<rparr>)
      else
        (let clientPool =
               \<lparr>poolNo = allocated s,
                concurrentOperationLimit = MAX_CONCURRENT_REQUESTS_PER_CLIENT,
                activeClients = []\<rparr>;
             s1 = s\<lparr>initCalls := initCalls s + 1, allocated := allocated s + 1\<rparr>;
             projectIdProvided = (pathProjectId (referencePath (inst s)) \<noteq> ''{{projectId}}'')
         in if projectIdProvided then (Inr (Pending clientPool None), s1)
            else
              (case acquire (initalizationSettings (inst s)) clientPool of
                 (c, p) \<Rightarrow> (Inr (Pending p (Some c)), s1))))"

text \<open>
  \<^verbatim>\<open>_runRequest(op)\<close> up to its return, where it chains \<open>op\<close> on the promise in
  \<^verbatim>\<open>_clientInitialized\<close>: the exception thrown, if any, and the state. The warning printed
  when timestamps in snapshots are not enabled is left out.
\<close>

definition runRequest_sync :: "'w state \<Rightarrow> err option \<times> 'w state" where
  "runRequest_sync s =
     (if clientInitialized (inst s) = None
      then
        (case initClientPool s of
           (Inl e, s1) \<Rightarrow> (Some e, s1)
         | (Inr st, s1) \<Rightarrow>
             (None,
              s1\<lparr>allocated := allocated s1 + 1,
                 inst := (inst s1)\<lparr>clientInitialized :=
                                     Some \<lparr>promiseNo = allocated s1, status = st\<rparr>\<rparr>\<rparr>))
      else (None, s))"

text \<open>
  The promise in \<^verbatim>\<open>_clientInitialized\<close> settles: the project ID is detected if it has
  to be, which sets \<^verbatim>\<open>_referencePath\<close>, and the callback
  \<^verbatim>\<open>clientPool => { this._clientPool = clientPool; }\<close> runs. A failed detection rejects
  the promise. Nothing happens when there is no promise or it is settled.
\<close>

definition initSettles :: "('w, 'r, 'a) gapic \<Rightarrow> 'w state \<Rightarrow> 'w state" where
  "initSettles env s =
     (case clientInitialized (inst s) of
        None \<Rightarrow> s
      | Some p \<Rightarrow>
          (case status p of
             Pending pl None \<Rightarrow>
               s\<lparr>inst := (inst s)\<lparr>clientPool := Some pl,
                                   clientInitialized := Some (p\<lparr>status := Fulfilled\<rparr>)\<rparr>\<rparr>
           | Pending pl (Some c) \<Rightarrow>
               (case fst (getProjectId env c (world s)) of
                  Inl e \<Rightarrow>
                    s\<lparr>world := snd (getProjectId env c (world s)),
                      inst := (inst s)\<lparr>clientInitialized := Some (p\<lparr>status := Rejected e\<rparr>)\<rparr>\<rparr>
                | Inr detected \<Rightarrow>
                    s\<lparr>world := snd (getProjectId env c (world s)),
                      inst := (inst s)
                        \<lparr>referencePath :=
                           \<lparr>pathProjectId = detected,
                            databaseId = databaseId (referencePath (inst s))\<rparr>,
                         clientPool := Some (release c pl),
                         clientInitialized := Some (p\<lparr>status := Fulfilled\<rparr>)\<rparr>\<rparr>)
           | _ \<Rightarrow> s))"

definition no_client_pool :: err where
  "no_client_pool = \<lparr>code = None, message = ''Cannot read property 'run' of null''\<rparr>"

text \<open>
  \<^verbatim>\<open>_runRequest(op)\<close> to the end: once the promise in \<^verbatim>\<open>_clientInitialized\<close> has
  settled, the operation runs on a client of the pool. \<open>None\<close> is a promise that never
  settles.
\<close>

definition runRequest ::
  "('w, 'r, 'a) gapic \<Rightarrow> (client \<Rightarrow> 'w state \<Rightarrow> ('b settled \<times> 'w state) option) \<Rightarrow> 'w state
     \<Rightarrow> ('b settled \<times> 'w state) option"
where
  "runRequest env op s =
     (case runRequest_sync s of
        (Some e, s1) \<Rightarrow> Some (Inl e, s1)
      | (None, s1) \<Rightarrow>
          (let s2 = initSettles env s1
           in case clientInitialized (inst s2) of
                None \<Rightarrow> Some (Inl no_client_pool, s2)
              | Some p \<Rightarrow>
                  (case status p of
                     Pending pl c \<Rightarrow> None
                   | Rejected e \<Rightarrow> Some (Inl e, s2)
                   | Fulfilled \<Rightarrow>
                       (case clientPool (inst s2) of
                          None \<Rightarrow> Some (Inl no_client_pool, s2)
                        | Some pl \<Rightarrow>
                            (case acquire (initalizationSettings (inst s2)) pl of
                               (c, pl') \<Rightarrow>
                                 (case op c (s2\<lparr>inst := (inst s2)\<lparr>clientPool := Some pl'\<rparr>\<rparr>) of
                                    None \<Rightarrow> None
                                  | Some (r, s3) \<Rightarrow>
                                      Some (r, s3\<lparr>inst := (inst s3)
                                                 \<lparr>clientPool :=
                                                    map_option (release c)
                                                      (clientPool (inst s3))\<rparr>\<rparr>)))))))"

text \<open>\<^verbatim>\<open>_decorateRequest(request)\<close>: the request and the GAX headers.\<close>

definition decorateRequest ::
  "('w, 'r, 'a) gapic \<Rightarrow> firestore \<Rightarrow> 'r \<Rightarrow> 'r \<times> (string \<times> string) list" where
  "decorateRequest env f r =
     (replaceProjectIdToken env r (pathProjectId (referencePath f)),
      [(CLOUD_RESOURCE_HEADER, pathFormattedName env (referencePath f))])"

text \<open>\<^verbatim>\<open>request(methodName, request, requestTag, allowRetries)\<close>.\<close>

definition request ::
  "('w, 'r, 'a) gapic \<Rightarrow> string \<Rightarrow> 'r \<Rightarrow> bool \<Rightarrow> 'w state \<Rightarrow> ('a settled \<times> 'w state) option"
where
  "request env methodName r allowRetries s =
     (let attempts = (if allowRetries then MAX_REQUEST_RETRIES else 1)
      in runRequest env
           (\<lambda>gapicClient s'.
              let decorated = decorateRequest env (inst s') r
              in retry (getTime env)
                   (unary env gapicClient methodName (fst decorated) (snd decorated))
                   attempts None s')
           s)"

section \<open>Observations on \<^verbatim>\<open>request\<close> and on client initialization\<close>

text \<open>
  The client and the state with which the operation handed to \<^verbatim>\<open>_runRequest\<close> starts,
  if the client pool gets initialized.
\<close>

definition prepared :: "('w, 'r, 'a) gapic \<Rightarrow> 'w state \<Rightarrow> (client \<times> 'w state) option" where
  "prepared env s =
     (case runRequest_sync s of
        (Some e, s1) \<Rightarrow> None
      | (None, s1) \<Rightarrow>
          (let s2 = initSettles env s1
           in case clientInitialized (inst s2) of
                None \<Rightarrow> None
              | Some p \<Rightarrow>
                  (case status p of
                     Fulfilled \<Rightarrow>
                       (case clientPool (inst s2) of
                          None \<Rightarrow> None
                        | Some pl \<Rightarrow>
                            (case acquire (initalizationSettings (inst s2)) pl of
                               (c, pl') \<Rightarrow>
                                 Some (c, s2\<lparr>inst := (inst s2)\<lparr>clientPool := Some pl'\<rparr>\<rparr>)))
                   | _ \<Rightarrow> None)))"

text \<open>The function that \<^verbatim>\<open>request\<close> hands to \<^verbatim>\<open>_retry\<close>.\<close>

definition request_func ::
  "('w, 'r, 'a) gapic \<Rightarrow> client \<Rightarrow> string \<Rightarrow> firestore \<Rightarrow> 'r \<Rightarrow> 'w \<Rightarrow> 'a settled \<times> 'w" where
  "request_func env gapicClient methodName f r =
     unary env gapicClient methodName (fst (decorateRequest env f r))
       (snd (decorateRequest env f r))"

text \<open>Every invocation of the function fails with a transient error.\<close>

definition always_transient :: "('w \<Rightarrow> 'a settled \<times> 'w) \<Rightarrow> bool" where
  "always_transient func = (\<forall>w. \<exists>e. fst (func w) = Inl e \<and> transient e)"

text \<open>
  The three funnels. Each of \<^verbatim>\<open>request\<close>, \<^verbatim>\<open>readStream\<close> and
  \<^verbatim>\<open>readWriteStream\<close> works out its attempts and calls \<^verbatim>\<open>_runRequest\<close> with an
  operation that runs later: up to its return, a call of any of them is the synchronous part
  of \<^verbatim>\<open>_runRequest\<close>.
\<close>

datatype funnel = UnaryRequest | ReadStream | ReadWriteStream

definition call_sync :: "funnel \<Rightarrow> 'w state \<Rightarrow> err option \<times> 'w state" where
  "call_sync m s = runRequest_sync s"

text \<open>
  What may happen to an instance, one after the other in any order: a funnel is called and
  returns its promise; the promise in \<^verbatim>\<open>_clientInitialized\<close> settles; a call of
  \<^verbatim>\<open>request\<close> runs from its start to the settlement of its promise; \<^verbatim>\<open>settings()\<close>
  is called.
\<close>

datatype 'r action =
    Calls funnel
  | InitSettles
  | Requests string 'r bool
  | Settings settings_t

fun step :: "('w, 'r, 'a) gapic \<Rightarrow> 'w state \<Rightarrow> 'r action \<Rightarrow> 'w state" where
  "step env s (Calls m) = snd (call_sync m s)"
| "step env s InitSettles = initSettles env s"
| "step env s (Requests methodName r allowRetries) =
     (case request env methodName r allowRetries s of None \<Rightarrow> s | Some (x, s') \<Rightarrow> s')"
| "step env s (Settings st) = s\<lparr>inst := snd (settings st (inst s))\<rparr>"

definition run :: "('w, 'r, 'a) gapic \<Rightarrow> 'w state \<Rightarrow> 'r action list \<Rightarrow> 'w state" where
  "run env s acts = foldl (step env) s acts"

text \<open>A new instance on the world \<open>w\<close>, with nothing done yet.\<close>

definition new_instance :: "string \<Rightarrow> string option \<Rightarrow> settings_t \<Rightarrow> 'w \<Rightarrow> 'w state" where
  "new_instance libVersion functionTriggerType st w =
     \<lparr>inst = constructor libVersion functionTriggerType st, world = w, delays = [], calls = 0,
      initCalls = 0, allocated = 0\<rparr>"

text \<open>
  The pool of the instance, if it has one, is the pool that was created right before
  the promise with the number \<open>n\<close>.
\<close>

definition pool_of_promise :: "nat \<Rightarrow> 'w state \<Rightarrow> bool" where
  "pool_of_promise n s =
     (case clientPool (inst s) of None \<Rightarrow> True | Some pl \<Rightarrow> poolNo pl + 1 = n)"

text \<open>
  What holds of an instance whatever happens to it: \<^verbatim>\<open>_initClientPool\<close> has run once if
  \<^verbatim>\<open>_clientInitialized\<close> is set and not at all otherwise, and the pool that the promise
  waits for and the pool of the instance are the one that this run created.
\<close>

definition init_inv :: "'w state \<Rightarrow> bool" where
  "init_inv s =
     (case clientInitialized (inst s) of
        None \<Rightarrow> initCalls s = 0 \<and> clientPool (inst s) = None
      | Some p \<Rightarrow>
          initCalls s = 1 \<and> promiseNo p < allocated s \<and> pool_of_promise (promiseNo p) s
          \<and> (case status p of Pending pl c \<Rightarrow> poolNo pl + 1 = promiseNo p | _ \<Rightarrow> True))"

text \<open>The number of the promise in \<^verbatim>\<open>_clientInitialized\<close>, if there is one.\<close>

definition memo :: "'w state \<Rightarrow> nat option" where
  "memo s = map_option promiseNo (clientInitialized (inst s))"

text \<open>
  Two states agree on what client initialization reads and writes.
\<close>

definition same_init :: "'w state \<Rightarrow> 'w state \<Rightarrow> bool" where
  "same_init s s' =
     (initCalls s' = initCalls s \<and> allocated s' = allocated s
      \<and> clientInitialized (inst s') = clientInitialized (inst s)
      \<and> clientPool (inst s') = clientPool (inst s))"

section \<open>Concrete inputs\<close>

text \<open>
  A backend that answers the successive invocations with the listed outcomes and with
  UNAVAILABLE once the list is used up, three errors, and a new instance with no request
  made yet.
\<close>

definition scripted :: "'a settled list \<Rightarrow> 'a settled \<times> 'a settled list" where
  "scripted w =
     (case w of
        [] \<Rightarrow> (Inl \<lparr>code = Some GRPC_UNAVAILABLE, message = ''UNAVAILABLE''\<rparr>, [])
      | x # xs \<Rightarrow> (x, xs))"

definition unavailable :: err where
  "unavailable = \<lparr>code = Some 14, message = ''UNAVAILABLE''\<rparr>"

definition not_found :: err where
  "not_found = \<lparr>code = Some 5, message = ''NOT_FOUND''\<rparr>"

definition hang_up :: err where
  "hang_up = \<lparr>code = None, message = ''socket hang up''\<rparr>"

definition fresh :: "'w \<Rightarrow> 'w state" where
  "fresh w =
     \<lparr>inst = constructor ''0.14.1'' None
        \<lparr>projectId = Some ''demo'', timestampsInSnapshots = Some True, otherSettings = Map.empty\<rparr>,
      world = w, delays = [], calls = 0, initCalls = 0, allocated = 0\<rparr>"

definition started :: firestore where
  "started = (inst (fresh ()))\<lparr>clientInitialized := Some \<lparr>promiseNo = 1, status = Fulfilled\<rparr>\<rparr>"

definition more_settings :: settings_t where
  "more_settings =
     \<lparr>projectId = Some ''other'', timestampsInSnapshots = None, otherSettings = Map.empty\<rparr>"

definition boom :: err where
  "boom = \<lparr>code = Some 13, message = ''INTERNAL''\<rparr>"

text \<open>
  Two references, a name parser for the database \<^verbatim>\<open>db\<close>, a response for a document
  that exists and one for a document that does not, and a \<^verbatim>\<open>readStream\<close> that hands
  out a stream with the listed events.
\<close>

definition ref_of_name :: "string \<Rightarrow> document_reference settled" where
  "ref_of_name nm =
     (if take 3 nm = ''db/'' then Inr \<lparr>formattedName = nm, path = drop 3 nm\<rparr>
      else Inl \<lparr>code = None, message = ''not a resource path''\<rparr>)"

definition docA :: document_reference where
  "docA = \<lparr>formattedName = ''db/c/a'', path = ''c/a''\<rparr>"

definition docB :: document_reference where
  "docB = \<lparr>formattedName = ''db/c/b'', path = ''c/b''\<rparr>"

definition foundA :: "nat response" where
  "foundA = \<lparr>found = Some \<lparr>name = ''db/c/a'', content = 1\<rparr>, missing = [], readTime = Some 7\<rparr>"

definition missingB :: "nat response" where
  "missingB = \<lparr>found = None, missing = ''db/c/b'', readTime = Some 7\<rparr>"

definition scripted_stream ::
  "'c stream_event list \<Rightarrow> 't batch_request \<Rightarrow> 'c stream_event list settled" where
  "scripted_stream events issued = Inr events"

text \<open>
  A validator that wants an integer of at least 1; a backend that counts its calls, on
  which the commit of the transactions whose numbers satisfy \<open>fails\<close> is aborted and
  every rollback fails or none does; a function that returns the number of its transaction
  and one that returns a rejected promise; and the first three transactions of a run.
\<close>

definition at_least_one :: "int option \<Rightarrow> err option" where
  "at_least_one v =
     (case v of
        None \<Rightarrow> None
      | Some n \<Rightarrow> if n < 1 then Some \<lparr>code = None, message = ''not a valid integer''\<rparr> else None)"

definition aborted :: "nat \<Rightarrow> err" where
  "aborted n = \<lparr>code = Some 10, message = ''ABORTED '' @ replicate (Suc n) (CHR ''I'')\<rparr>"

definition cancelled :: err where
  "cancelled = \<lparr>code = None, message = ''Reached maximum count''\<rparr>"

definition rollback_refused :: err where
  "rollback_refused = \<lparr>code = Some 14, message = ''UNAVAILABLE''\<rparr>"

definition contended :: "(nat \<Rightarrow> bool) \<Rightarrow> bool \<Rightarrow> nat collaborators" where
  "contended fails rollback_fails =
     \<lparr>begin_tx = (\<lambda>t w. (Inr (), w + 1)),
      commit_tx = (\<lambda>t w. (if fails (txNo t) then Inl (aborted (txNo t)) else Inr (), w + 1)),
      rollback_tx = (\<lambda>t w. (if rollback_fails then Inl rollback_refused else Inr (), w + 1)),
      isOptionalInteger = at_least_one\<rparr>"

definition returns_number :: "transaction \<Rightarrow> nat \<Rightarrow> nat callback_result \<times> nat" where
  "returns_number t w = (Returns (Inr (txNo t)), w)"

definition rejects :: "transaction \<Rightarrow> nat \<Rightarrow> nat callback_result \<times> nat" where
  "rejects t w = (Returns (Inl cancelled), w)"

definition no_transactions :: "nat tx_state" where
  "no_transactions = \<lparr>backend = 0, history = [], constructed = 0\<rparr>"

definition tx0 :: transaction where "tx0 = Transaction 0 None"

definition tx1 :: transaction where "tx1 = Transaction 1 (Some tx0)"

definition tx2 :: transaction where "tx2 = Transaction 2 (Some tx1)"

text \<open>
  Collaborators whose unary methods all behave as the function given, and a backend that
  is down.
\<close>

definition gapic_with :: "('w \<Rightarrow> 'a settled \<times> 'w) \<Rightarrow> ('w, unit, 'a) gapic" where
  "gapic_with func =
     \<lparr>getTime = (\<lambda>w. 0),
      getProjectId = (\<lambda>c w. (Inr ''detected'', w)),
      unary = (\<lambda>c methodName r headers. func),
      replaceProjectIdToken = (\<lambda>r p. r),
      pathFormattedName = (\<lambda>p. ''projects/'' @ pathProjectId p @ ''/databases/'' @ databaseId p)\<rparr>"

definition down :: "unit \<Rightarrow> nat settled \<times> unit" where
  "down w = (Inl unavailable, w)"

text \<open>A new instance that was given no project ID.\<close>

definition undetected :: "nat settled list state" where
  "undetected =
     new_instance ''0.14.1'' None
       \<lparr>projectId = None, timestampsInSnapshots = Some True, otherSettings = Map.empty\<rparr>
       [Inl unavailable, Inr 7]"

section \<open>Properties of \<^verbatim>\<open>settings()\<close>\<close>

text \<open>
  Claim C10. A call of \<^verbatim>\<open>settings()\<close> after client initialization has started, or
  after an earlier call of \<^verbatim>\<open>settings()\<close> went through, throws and leaves the
  instance as it was. A call that goes through stores the merged settings (the properties
  given to \<^verbatim>\<open>settings()\<close> take precedence), applies them, and freezes them: every
  further call throws and changes nothing.
\<close>

theorem settings_only_once_before_start:
  "(clientInitialized f \<noteq> None \<or> settingsFrozen f \<longrightarrow>
      (\<exists>e. fst (settings st f) = Some e) \<and> snd (settings st f) = f)
   \<and> (clientInitialized f = None \<and> \<not> settingsFrozen f \<longrightarrow>
        fst (settings st f) = None
      \<and> initalizationSettings (snd (settings st f)) = extend_settings (initalizationSettings f) st
      \<and> projectId (initalizationSettings (snd (settings st f))) =
          (case projectId st of None \<Rightarrow> projectId (initalizationSettings f) | Some p \<Rightarrow> Some p)
      \<and> timestampsInSnapshotsEnabled (snd (settings st f)) =
          (case timestampsInSnapshots st of
             None \<Rightarrow> timestampsInSnapshots (initalizationSettings f) = Some True
           | Some t \<Rightarrow> t)
      \<and> pathProjectId (referencePath (snd (settings st f))) =
          (case projectId (extend_settings (initalizationSettings f) st) of
             None \<Rightarrow> ''{{projectId}}''
           | Some p \<Rightarrow> if p = [] then ''{{projectId}}'' else p)
      \<and> settingsFrozen (snd (settings st f))
      \<and> fst (settings st2 (snd (settings st f))) = Some already_called
      \<and> snd (settings st2 (snd (settings st f))) = snd (settings st f))"
  by (auto simp: settings_def Let_def validateAndApplySettings_def extend_settings_def
      split: option.splits)

text \<open>
  The theorem at an instance whose initialization has started, and at a new instance
  configured a first and then a second time.
\<close>

theorem settings_only_once_before_start_witness:
  "clientInitialized started \<noteq> None
   \<and> settings more_settings started = (Some already_started, started)
   \<and> clientInitialized (inst (fresh ())) = None \<and> \<not> settingsFrozen (inst (fresh ()))
   \<and> fst (settings more_settings (inst (fresh ()))) = None
   \<and> projectId (initalizationSettings (snd (settings more_settings (inst (fresh ()))))) = Some ''other''
   \<and> timestampsInSnapshotsEnabled (snd (settings more_settings (inst (fresh ()))))
   \<and> pathProjectId (referencePath (snd (settings more_settings (inst (fresh ()))))) = ''other''
   \<and> settingsFrozen (snd (settings more_settings (inst (fresh ()))))
   \<and> fst (settings more_settings (snd (settings more_settings (inst (fresh ()))))) = Some already_called"
proof -
  have a: "clientInitialized started \<noteq> None" by (simp add: started_def)
  have b: "clientInitialized (inst (fresh ())) = None \<and> \<not> settingsFrozen (inst (fresh ()))"
    by (simp add: fresh_def constructor_def validateAndApplySettings_def Let_def)
  note A = settings_only_once_before_start[of started more_settings more_settings]
  note B = settings_only_once_before_start[of "inst (fresh ())" more_settings more_settings]
  have 1: "settings more_settings started = (Some already_started, started)"
    using a by (simp add: settings_def)
  have 2: "fst (settings more_settings (inst (fresh ()))) = None"
    "settingsFrozen (snd (settings more_settings (inst (fresh ()))))"
    "fst (settings more_settings (snd (settings more_settings (inst (fresh ()))))) = Some already_called"
    using B b by blast+
  have 3: "projectId (initalizationSettings (snd (settings more_settings (inst (fresh ()))))) = Some ''other''"
    "timestampsInSnapshotsEnabled (snd (settings more_settings (inst (fresh ()))))"
    "pathProjectId (referencePath (snd (settings more_settings (inst (fresh ()))))) = ''other''"
    by (simp_all add: settings_def Let_def validateAndApplySettings_def extend_settings_def
        more_settings_def fresh_def constructor_def)
  show ?thesis using a b 1 2 3 A by blast
qed

section \<open>Properties of \<^verbatim>\<open>_retry\<close>\<close>

lemma or_default_next [simp]:
  "or_default (Some (or_default d 100)) 0 = or_default d 100"
  "or_default (Some (or_default d 100)) 100 = or_default d 100"
  by (auto simp: or_default_def split: option.splits)

lemma retry_terminal:
  assumes "fst (func (world s)) = Inl e" and "\<not> transient e"
  shows "retry now func n d s =
           Some (Inl e, s\<lparr>delays := delays s @ [or_default d 0], calls := calls s + 1,
                          world := snd (func (world s))\<rparr>)"
  using assms by (subst retry.simps) (simp add: transient_def Let_def)

lemma retry_exhausted:
  assumes "fst (func (world s)) = Inl e" and "transient e"
  shows "retry now func 1 d s =
           Some (Inl e, s\<lparr>delays := delays s @ [or_default d 0], calls := calls s + 1,
                          world := snd (func (world s))\<rparr>)"
  using assms by (subst retry.simps) (auto simp add: transient_def Let_def)

lemma retry_again:
  assumes "fst (func (world s)) = Inl e" and "transient e" and "n \<noteq> 1"
  shows "retry now func n d s =
           retry now func (n - 1) (Some (or_default d 100))
             (s\<lparr>delays := delays s @ [or_default d 0], calls := calls s + 1,
                world := snd (func (world s))\<rparr>)"
  using assms by (subst retry.simps) (auto simp add: transient_def Let_def)

lemma retry_success:
  assumes "fst (func (world s)) = Inr v"
  shows "retry now func n d s =
           Some (Inr v, s\<lparr>delays := delays s @ [or_default d 0], calls := calls s + 1,
                          world := snd (func (world s)),
                          inst := (inst s)\<lparr>lastSuccessfulRequest := Some (now (snd (func (world s))))\<rparr>\<rparr>)"
  using assms by (subst retry.simps) (simp add: Let_def)

lemma retry_bounded:
  "\<exists>r s' m. retry now func (int k + 1) d s = Some (r, s') \<and> m \<le> k
      \<and> calls s' = calls s + Suc m
      \<and> delays s' = delays s @ or_default d 0 # replicate m (or_default d 100)"
proof (induction k arbitrary: d s)
  case 0
  show ?case
  proof (cases "fst (func (world s))")
    case (Inr v)
    show ?thesis by (rule exI[where x="Inr v"], simp add: retry_success[where func=func and s=s, OF Inr])
  next
    case (Inl e)
    show ?thesis
    proof (cases "transient e")
      case True
      show ?thesis using retry_exhausted[where func=func and s=s, OF Inl True, of now d] by simp
    next
      case False
      show ?thesis using retry_terminal[where func=func and s=s, OF Inl False] by simp
    qed
  qed
next
  case (Suc k)
  show ?case
  proof (cases "fst (func (world s))")
    case (Inr v)
    show ?thesis by (rule exI[where x="Inr v"], simp add: retry_success[where func=func and s=s, OF Inr])
  next
    case (Inl e)
    show ?thesis
    proof (cases "transient e")
      case False
      show ?thesis using retry_terminal[where func=func and s=s, OF Inl False] by simp
    next
      case True
      let ?s = "s\<lparr>delays := delays s @ [or_default d 0], calls := calls s + 1,
                world := snd (func (world s))\<rparr>"
      have n1: "int (Suc k) + 1 - 1 = int k + 1" and n2: "int (Suc k) + 1 \<noteq> 1" by simp_all
      have eq: "retry now func (int (Suc k) + 1) d s =
                retry now func (int k + 1) (Some (or_default d 100)) ?s"
        using retry_again[where func=func and s=s, OF Inl True n2, of now d] unfolding n1 .
      from Suc.IH[of "Some (or_default d 100)" ?s]
      obtain r s' m where h: "retry now func (int k + 1) (Some (or_default d 100)) ?s = Some (r, s')"
        "m \<le> k" "calls s' = calls ?s + Suc m"
        "delays s' = delays ?s @ or_default (Some (or_default d 100)) 0
            # replicate m (or_default (Some (or_default d 100)) 100)"
        by blast
      show ?thesis
        apply (rule exI[where x=r], rule exI[where x=s'], rule exI[where x="Suc m"])
        using h eq by (simp add: replicate_append_same)
    qed
  qed
qed

lemma retry_fails_then_succeeds:
  "fails_then_succeeds func (world s) k v \<Longrightarrow> int k < n \<Longrightarrow>
   \<exists>s'. retry now func n d s = Some (Inr v, s') \<and> calls s' = calls s + Suc k
      \<and> delays s' = delays s @ or_default d 0 # replicate k (or_default d 100)"
proof (induction k arbitrary: n d s)
  case 0
  then show ?case by (simp add: retry_success)
next
  case (Suc k)
  from Suc.prems(1) obtain e where e: "fst (func (world s)) = Inl e" "transient e"
    and rest: "fails_then_succeeds func (snd (func (world s))) k v"
    by (auto split: sum.splits)
  let ?s = "s\<lparr>delays := delays s @ [or_default d 0], calls := calls s + 1,
                world := snd (func (world s))\<rparr>"
  have eq: "retry now func n d s = retry now func (n - 1) (Some (or_default d 100)) ?s"
    using retry_again[where func=func and s=s, OF e, of n now d] Suc.prems(2) by simp
  have "fails_then_succeeds func (world ?s) k v" using rest by simp
  from Suc.IH[OF this, of "n - 1" "Some (or_default d 100)"] Suc.prems(2)
  obtain s' where "retry now func (n - 1) (Some (or_default d 100)) ?s = Some (Inr v, s')"
    "calls s' = calls ?s + Suc k"
    "delays s' = delays ?s @ or_default (Some (or_default d 100)) 0
            # replicate k (or_default (Some (or_default d 100)) 100)"
    by auto
  then show ?case using eq by (simp add: replicate_append_same)
qed

lemma retry_always_transient:
  assumes "always_transient func"
  shows "\<exists>e s'. retry now func (int k + 1) d s = Some (Inl e, s') \<and> calls s' = calls s + Suc k
      \<and> delays s' = delays s @ or_default d 0 # replicate k (or_default d 100)"
proof (induction k arbitrary: d s)
  case 0
  from assms obtain e where e: "fst (func (world s)) = Inl e" "transient e"
    unfolding always_transient_def by blast
  from retry_exhausted[where func=func and s=s, OF e, of now d] show ?case by simp
next
  case (Suc k)
  from assms obtain e where e: "fst (func (world s)) = Inl e" "transient e"
    unfolding always_transient_def by blast
  let ?s = "s\<lparr>delays := delays s @ [or_default d 0], calls := calls s + 1,
              world := snd (func (world s))\<rparr>"
  have n1: "int (Suc k) + 1 - 1 = int k + 1" and n2: "int (Suc k) + 1 \<noteq> 1" by simp_all
  have eq: "retry now func (int (Suc k) + 1) d s =
                retry now func (int k + 1) (Some (or_default d 100)) ?s"
    using retry_again[where func=func and s=s, OF e n2, of now d] unfolding n1 .
  from Suc.IH[of "Some (or_default d 100)" ?s]
  obtain e' s' where "retry now func (int k + 1) (Some (or_default d 100)) ?s = Some (Inl e', s')"
    "calls s' = calls ?s + Suc k"
    "delays s' = delays ?s @ or_default (Some (or_default d 100)) 0
            # replicate k (or_default (Some (or_default d 100)) 100)"
    by blast
  then show ?case unfolding eq by (simp add: replicate_append_same)
qed

text \<open>
  Claim C1. When an attempt fails with an error whose code is defined and is not
  UNAVAILABLE (14), \<^verbatim>\<open>_retry\<close> fails with that error after this one invocation,
  whatever the budget. When the error has the code UNAVAILABLE or no defined code and the
  budget is above 1, the function is invoked again: the chain continues with the budget
  decremented, it settles, and at least two invocations were made.
\<close>

theorem retry_classifies_errors:
  assumes "fst (func (world s)) = Inl e"
  shows "(code e \<noteq> None \<and> code e \<noteq> Some GRPC_UNAVAILABLE \<longrightarrow>
            (\<exists>s'. retry now func attemptsRemaining delayMs s = Some (Inl e, s')
                \<and> calls s' = calls s + 1))
       \<and> ((code e = None \<or> code e = Some GRPC_UNAVAILABLE) \<and> 1 < attemptsRemaining \<longrightarrow>
            (\<exists>r s'. retry now func attemptsRemaining delayMs s = Some (r, s')
                \<and> calls s + 2 \<le> calls s')
          \<and> retry now func attemptsRemaining delayMs s =
              retry now func (attemptsRemaining - 1) (Some (or_default delayMs 100))
                (s\<lparr>delays := delays s @ [or_default delayMs 0], calls := calls s + 1,
                   world := snd (func (world s))\<rparr>))"
proof (intro conjI impI)
  assume "code e \<noteq> None \<and> code e \<noteq> Some GRPC_UNAVAILABLE"
  then have "\<not> transient e" by (simp add: transient_def)
  from retry_terminal[where func=func and s=s, OF assms this]
  show "\<exists>s'. retry now func attemptsRemaining delayMs s = Some (Inl e, s')
          \<and> calls s' = calls s + 1"
    by simp
next
  assume h: "(code e = None \<or> code e = Some GRPC_UNAVAILABLE) \<and> 1 < attemptsRemaining"
  then have t: "transient e" and n: "attemptsRemaining \<noteq> 1" by (simp_all add: transient_def)
  let ?s = "s\<lparr>delays := delays s @ [or_default delayMs 0], calls := calls s + 1,
               world := snd (func (world s))\<rparr>"
  show eq: "retry now func attemptsRemaining delayMs s =
        retry now func (attemptsRemaining - 1) (Some (or_default delayMs 100)) ?s"
    by (rule retry_again[where func=func and s=s, OF assms t n])
  define k where "k = nat (attemptsRemaining - 2)"
  have k: "int k + 1 = attemptsRemaining - 1" using h by (simp add: k_def)
  from retry_bounded[of now func k "Some (or_default delayMs 100)" ?s, unfolded k]
  obtain r s' m where "retry now func (attemptsRemaining - 1) (Some (or_default delayMs 100)) ?s
      = Some (r, s')" "calls s' = calls ?s + Suc m"
    by blast
  then show "\<exists>r s'. retry now func attemptsRemaining delayMs s = Some (r, s')
      \<and> calls s + 2 \<le> calls s'"
    using eq by simp
qed

text \<open>
  The theorem at a terminal error (NOT_FOUND), at UNAVAILABLE and at an error with no
  code.
\<close>

theorem retry_classifies_errors_witness:
  "fst (scripted (world (fresh [Inl not_found, Inr (1::nat)]))) = Inl not_found
   \<and> code not_found \<noteq> None \<and> code not_found \<noteq> Some GRPC_UNAVAILABLE
   \<and> (\<exists>s'. retry (\<lambda>w. 0) scripted 5 None (fresh [Inl not_found, Inr (1::nat)]) = Some (Inl not_found, s')
          \<and> calls s' = calls (fresh [Inl not_found, Inr (1::nat)]) + 1)
   \<and> fst (scripted (world (fresh [Inl unavailable, Inr (1::nat)]))) = Inl unavailable
   \<and> code unavailable = Some GRPC_UNAVAILABLE \<and> (1::int) < 5
   \<and> (\<exists>r s'. retry (\<lambda>w. 0) scripted 5 None (fresh [Inl unavailable, Inr (1::nat)]) = Some (r, s')
          \<and> calls (fresh [Inl unavailable, Inr (1::nat)]) + 2 \<le> calls s')
   \<and> fst (scripted (world (fresh [Inl hang_up, Inr (1::nat)]))) = Inl hang_up
   \<and> code hang_up = None \<and> (1::int) < 2
   \<and> (\<exists>r s'. retry (\<lambda>w. 0) scripted 2 None (fresh [Inl hang_up, Inr (1::nat)]) = Some (r, s')
          \<and> calls (fresh [Inl hang_up, Inr (1::nat)]) + 2 \<le> calls s')"
proof -
  have a: "fst (scripted (world (fresh [Inl not_found, Inr (1::nat)]))) = Inl not_found"
    by (simp add: scripted_def fresh_def)
  have a': "code not_found \<noteq> None \<and> code not_found \<noteq> Some GRPC_UNAVAILABLE"
    by (simp add: not_found_def GRPC_UNAVAILABLE_def)
  have b: "fst (scripted (world (fresh [Inl unavailable, Inr (1::nat)]))) = Inl unavailable"
    by (simp add: scripted_def fresh_def)
  have b': "(code unavailable = None \<or> code unavailable = Some GRPC_UNAVAILABLE) \<and> (1::int) < 5"
    by (simp add: unavailable_def GRPC_UNAVAILABLE_def)
  have c: "fst (scripted (world (fresh [Inl hang_up, Inr (1::nat)]))) = Inl hang_up"
    by (simp add: scripted_def fresh_def)
  have c': "(code hang_up = None \<or> code hang_up = Some GRPC_UNAVAILABLE) \<and> (1::int) < 2"
    by (simp add: hang_up_def)
  note A = retry_classifies_errors[where func=scripted and now="\<lambda>w. 0" and delayMs=None, OF a,
      where attemptsRemaining=5]
  note B = retry_classifies_errors[where func=scripted and now="\<lambda>w. 0" and delayMs=None, OF b,
      where attemptsRemaining=5]
  note C = retry_classifies_errors[where func=scripted and now="\<lambda>w. 0" and delayMs=None, OF c,
      where attemptsRemaining=2]
  from A a' have 1: "\<exists>s'. retry (\<lambda>w. 0) scripted 5 None (fresh [Inl not_found, Inr (1::nat)])
        = Some (Inl not_found, s')
      \<and> calls s' = calls (fresh [Inl not_found, Inr (1::nat)]) + 1"
    by blast
  from B b' have 2: "\<exists>r s'. retry (\<lambda>w. 0) scripted 5 None (fresh [Inl unavailable, Inr (1::nat)])
        = Some (r, s') \<and> calls (fresh [Inl unavailable, Inr (1::nat)]) + 2 \<le> calls s'"
    by blast
  from C c' have 3: "\<exists>r s'. retry (\<lambda>w. 0) scripted 2 None (fresh [Inl hang_up, Inr (1::nat)])
        = Some (r, s') \<and> calls (fresh [Inl hang_up, Inr (1::nat)]) + 2 \<le> calls s'"
    by blast
  have b'': "code unavailable = Some GRPC_UNAVAILABLE" "(1::int) < 5"
    by (simp_all add: unavailable_def GRPC_UNAVAILABLE_def)
  have c'': "code hang_up = None" "(1::int) < 2"
    by (simp_all add: hang_up_def)
  show ?thesis
    using a a' 1 b b'' 2 c c'' 3 by blast
qed

text \<open>
  Claim C8. Take a retry chain started without a delay, as \<^verbatim>\<open>request\<close>,
  \<^verbatim>\<open>readStream\<close> and \<^verbatim>\<open>readWriteStream\<close> start it. With a budget of at least 1
  it settles, its first attempt waits 0 ms and each further attempt waits the same 100 ms.
  The further attempts are made: if the function fails transiently \<open>k\<close> times,
  \<open>k\<close> below the budget, and then succeeds, the waits are 0 ms followed by exactly
  \<open>k\<close> times 100 ms; if it fails transiently every time, the waits are 0 ms followed
  by 100 ms for each of the remaining attempts of the budget.
\<close>

theorem retry_delay_is_fixed:
  "(1 \<le> attemptsRemaining \<longrightarrow>
      (\<exists>r s' m. retry now func attemptsRemaining None s = Some (r, s')
           \<and> calls s' = calls s + Suc m \<and> int (Suc m) \<le> attemptsRemaining
           \<and> delays s' = delays s @ 0 # replicate m 100))
   \<and> (fails_then_succeeds func (world s) k v \<and> int k < attemptsRemaining \<longrightarrow>
        (\<exists>s'. retry now func attemptsRemaining None s = Some (Inr v, s')
           \<and> calls s' = calls s + Suc k
           \<and> delays s' = delays s @ 0 # replicate k 100))
   \<and> (always_transient func \<and> 1 \<le> attemptsRemaining \<longrightarrow>
        (\<exists>e s'. retry now func attemptsRemaining None s = Some (Inl e, s')
           \<and> int (calls s') = int (calls s) + attemptsRemaining
           \<and> delays s' = delays s @ 0 # replicate (nat (attemptsRemaining - 1)) 100))"
proof (intro conjI impI)
  assume n: "1 \<le> attemptsRemaining"
  define j where "j = nat (attemptsRemaining - 1)"
  have j: "int j + 1 = attemptsRemaining" using n by (simp add: j_def)
  from retry_bounded[of now func j None s, unfolded j]
  obtain r s' m where "retry now func attemptsRemaining None s = Some (r, s')"
    "m \<le> j" "calls s' = calls s + Suc m"
    "delays s' = delays s @ or_default None 0 # replicate m (or_default None 100)"
    by blast
  moreover from \<open>m \<le> j\<close> j have "int (Suc m) \<le> attemptsRemaining" by simp
  ultimately show "\<exists>r s' m. retry now func attemptsRemaining None s = Some (r, s')
           \<and> calls s' = calls s + Suc m \<and> int (Suc m) \<le> attemptsRemaining
           \<and> delays s' = delays s @ 0 # replicate m 100"
    by (intro exI[where x=r] exI[where x=s'] exI[where x=m]) (simp add: or_default_def)
next
  assume "fails_then_succeeds func (world s) k v \<and> int k < attemptsRemaining"
  then have f: "fails_then_succeeds func (world s) k v" and k: "int k < attemptsRemaining"
    by simp_all
  from retry_fails_then_succeeds[where func=func and s=s, OF f k, of now None]
  show "\<exists>s'. retry now func attemptsRemaining None s = Some (Inr v, s')
           \<and> calls s' = calls s + Suc k
           \<and> delays s' = delays s @ 0 # replicate k 100"
    by (simp add: or_default_def)
next
  assume "always_transient func \<and> 1 \<le> attemptsRemaining"
  then have a: "always_transient func" and n: "1 \<le> attemptsRemaining" by simp_all
  define j where "j = nat (attemptsRemaining - 1)"
  have j: "int j + 1 = attemptsRemaining" using n by (simp add: j_def)
  from retry_always_transient[OF a, of now j None s, unfolded j]
  obtain e s' where h: "retry now func attemptsRemaining None s = Some (Inl e, s')"
    "calls s' = calls s + Suc j"
    "delays s' = delays s @ or_default None 0 # replicate j (or_default None 100)"
    by blast
  from h(2) j have "int (calls s') = int (calls s) + attemptsRemaining" by simp
  with h(1,3) show "\<exists>e s'. retry now func attemptsRemaining None s = Some (Inl e, s')
           \<and> int (calls s') = int (calls s) + attemptsRemaining
           \<and> delays s' = delays s @ 0 # replicate (nat (attemptsRemaining - 1)) 100"
    unfolding j_def[symmetric]
    by (intro exI[where x=e] exI[where x=s']) (simp add: or_default_def)
qed

text \<open>
  The theorem at a budget of 5 on a new instance: a function that fails twice and then
  answers 7 is invoked three times, after waits of 0, 100 and 100 ms; a backend that is
  down is invoked five times, after waits of 0 ms and four times 100 ms.
\<close>

theorem retry_delay_is_fixed_witness:
  "fails_then_succeeds scripted [Inl unavailable, Inl hang_up, Inr (7::nat)] 2 7
   \<and> (\<exists>s'. retry (\<lambda>w. 0) scripted 5 None (fresh [Inl unavailable, Inl hang_up, Inr (7::nat)])
             = Some (Inr 7, s')
          \<and> calls s' = 3 \<and> delays s' = [0, 100, 100])
   \<and> always_transient down
   \<and> (\<exists>e s'. retry (\<lambda>w. 0) down 5 None (fresh ()) = Some (Inl e, s')
          \<and> calls s' = 5 \<and> delays s' = [0, 100, 100, 100, 100])"
proof -
  let ?w = "[Inl unavailable, Inl hang_up, Inr (7::nat)]"
  have a: "always_transient down"
    by (simp add: always_transient_def down_def transient_def unavailable_def GRPC_UNAVAILABLE_def)
  have b: "fails_then_succeeds scripted (world (fresh ?w)) 2 7"
    by (simp add: numeral_2_eq_2 fresh_def scripted_def transient_def unavailable_def hang_up_def
        GRPC_UNAVAILABLE_def)
  have b': "fails_then_succeeds scripted ?w 2 7"
    using b by (simp add: fresh_def)
  have r2: "replicate 2 (100::nat) = [100, 100]"
    and r4: "replicate (nat (5 - 1)) (100::nat) = [100, 100, 100, 100]"
    by (simp_all add: numeral_2_eq_2 numeral_eq_Suc)
  have f: "calls (fresh w) = 0" "delays (fresh w) = []" for w :: 'w
    by (simp_all add: fresh_def)
  from retry_delay_is_fixed[where func=scripted and s="fresh ?w" and k=2 and v=7
      and attemptsRemaining=5 and now="\<lambda>w. 0"] b
  have 1: "\<exists>s'. retry (\<lambda>w. 0) scripted 5 None (fresh ?w) = Some (Inr 7, s')
          \<and> calls s' = 3 \<and> delays s' = [0, 100, 100]"
    unfolding f r2 by simp
  from retry_delay_is_fixed[where func=down and s="fresh ()" and attemptsRemaining=5
      and now="\<lambda>w. 0"] a
  have 2: "\<exists>e s'. retry (\<lambda>w. 0) down 5 None (fresh ()) = Some (Inl e, s')
          \<and> calls s' = 5 \<and> delays s' = [0, 100, 100, 100, 100]"
    unfolding f r4 by simp
  show ?thesis
    by (intro conjI) (rule a b' 1 2)+
qed

section \<open>Properties of \<^verbatim>\<open>_initializeStream\<close>\<close>

lemmas stream_defs = on_error_def emit_error_def releaseStream_def on_readable_def on_end_def
  emit_end_def on_timeout_def

lemma after_snoc: "after b (sigs @ [x]) = handle (after b sigs) x"
  by (simp add: after_def)

lemma after_append: "after b (sigs @ later) = foldl handle (after b sigs) later"
  by (simp add: after_def)

lemma stream_inv_init: "stream_inv (initializeStream b)"
  by (simp add: stream_inv_def initializeStream_def)

lemma stream_inv_handle: "stream_inv s \<Longrightarrow> stream_inv (handle s x)"
  by (cases x) (auto simp: stream_inv_def stream_defs split: option.splits)

lemma stream_inv_foldl: "stream_inv s \<Longrightarrow> stream_inv (foldl handle s sigs)"
  by (induction sigs arbitrary: s) (simp_all add: stream_inv_handle)

lemma stream_inv_after: "stream_inv (after b sigs)"
  unfolding after_def by (rule stream_inv_foldl[OF stream_inv_init])

lemma released_handle:
  "streamReleased s \<Longrightarrow> streamReleased (handle s x) \<and> settlements (handle s x) = settlements s"
  by (cases x) (auto simp: stream_defs split: option.splits)

lemma released_foldl:
  "streamReleased s \<Longrightarrow>
   streamReleased (foldl handle s sigs) \<and> settlements (foldl handle s sigs) = settlements s"
proof (induction sigs arbitrary: s)
  case Nil
  then show ?case by simp
next
  case (Cons x sigs)
  from released_handle[OF Cons.prems, of x] Cons.IH[of "handle s x"]
  show ?case by simp
qed

text \<open>
  Claim C4. If the stream signals an error while the initializer has not released it
  (no readable or end signal, no acknowledged write and no error came before), the promise
  is rejected with exactly that error, and whatever the stream signals later, the promise is
  never resolved with the stream.
\<close>

theorem initial_error_rejects:
  assumes "\<not> streamReleased (after hasRequest sigs)"
  shows "settlements (after hasRequest (sigs @ Error e # later)) = [Inl e]
       \<and> promise (after hasRequest (sigs @ Error e # later)) = Some (Inl e)
       \<and> Inr () \<notin> set (settlements (after hasRequest (sigs @ Error e # later)))"
proof -
  let ?s = "after hasRequest sigs"
  from stream_inv_after[of hasRequest sigs] assms have "settlements ?s = []"
    by (simp add: stream_inv_def)
  with assms have 1: "streamReleased (handle ?s (Error e))"
    "settlements (handle ?s (Error e)) = [Inl e]"
    by (simp_all add: on_error_def)
  have "after hasRequest (sigs @ Error e # later) = foldl handle (handle ?s (Error e)) later"
    by (simp add: after_def)
  with released_foldl[OF 1(1), of later] 1(2)
  have "settlements (after hasRequest (sigs @ Error e # later)) = [Inl e]" by simp
  then show ?thesis by (simp add: promise_def)
qed

text \<open>The theorem at a stream that fails at once and signals on.\<close>

theorem initial_error_rejects_witness:
  "\<not> streamReleased (after True [])
   \<and> promise (after True ([] @ Error boom # [Readable, End, Timeout])) = Some (Inl boom)
   \<and> settlements (after True ([] @ Error boom # [Readable, End, Timeout])) = [Inl boom]"
proof -
  have h: "\<not> streamReleased (after True [])" by (simp add: after_def initializeStream_def)
  from initial_error_rejects[OF h, of boom "[Readable, End, Timeout]"] h
  show ?thesis by blast
qed

lemma awaiting_handle:
  "awaiting_forward s \<Longrightarrow> x \<noteq> Timeout \<Longrightarrow> awaiting_forward (handle s x)"
  by (cases x) (auto simp: awaiting_forward_def stream_defs split: option.splits)

lemma awaiting_foldl:
  "awaiting_forward s \<Longrightarrow> Timeout \<notin> set sigs \<Longrightarrow> awaiting_forward (foldl handle s sigs)"
proof (induction sigs arbitrary: s)
  case Nil
  then show ?case by simp
next
  case (Cons x sigs)
  from Cons.prems have "x \<noteq> Timeout" "Timeout \<notin> set sigs" by auto
  with awaiting_handle[OF Cons.prems(1), of x] Cons.IH[of "handle s x"]
  show ?case by simp
qed

lemma awaiting_timeout: "awaiting_forward s \<Longrightarrow> forwarded (handle s Timeout)"
  by (auto simp: awaiting_forward_def forwarded_def stream_defs split: option.splits)

lemma forwarded_handle: "forwarded s \<Longrightarrow> forwarded (handle s x)"
  by (cases x) (auto simp: forwarded_def stream_defs split: option.splits)

lemma forwarded_foldl: "forwarded s \<Longrightarrow> forwarded (foldl handle s sigs)"
  by (induction sigs arbitrary: s) (simp_all add: forwarded_handle)

lemma pending_end:
  assumes "\<not> streamReleased (after b sigs)"
  shows "awaiting_forward (after b (sigs @ [End]))"
    and "settlements (after b (sigs @ [End])) = [Inr ()]"
proof -
  from stream_inv_after[of b sigs] assms
  have "settlements (after b sigs) = [] \<and> emits (after b sigs) = [] \<and> timers (after b sigs) = 0
      \<and> errorReceived (after b sigs) = None"
    by (simp add: stream_inv_def)
  with assms show "awaiting_forward (after b (sigs @ [End]))"
    and "settlements (after b (sigs @ [End])) = [Inr ()]"
    by (simp_all add: after_snoc awaiting_forward_def on_end_def releaseStream_def)
qed

lemma resolved_released: "promise (after b sigs) = Some (Inr ()) \<Longrightarrow> streamReleased (after b sigs)"
  using stream_inv_after[of b sigs]
  by (auto simp: stream_inv_def promise_def split: list.splits)

lemmas eval_stream = after_def initializeStream_def stream_defs promise_def ends_emitted_def

text \<open>
  What holds of the release and of an end seen before it. The promise is settled at most
  once, so the stream is released at most once. An end signalled before the release resolves
  the promise, and the initializer emits \<^verbatim>\<open>'end'\<close> on the released stream exactly
  once: not before the zero-delay timer runs, once when it runs, and never again.
\<close>

lemma released_once_end_forwarded_once:
  "length (settlements (after hasRequest sigs)) \<le> 1
   \<and> (\<not> streamReleased (after hasRequest sigs) \<and> Timeout \<notin> set mid \<longrightarrow>
        promise (after hasRequest (sigs @ [End])) = Some (Inr ())
      \<and> ends_emitted (after hasRequest (sigs @ End # mid)) = 0
      \<and> ends_emitted (after hasRequest (sigs @ End # mid @ Timeout # later)) = 1)"
proof (intro conjI impI)
  show "length (settlements (after hasRequest sigs)) \<le> 1"
    using stream_inv_after[of hasRequest sigs] by (simp add: stream_inv_def split: if_splits)
next
  assume h: "\<not> streamReleased (after hasRequest sigs) \<and> Timeout \<notin> set mid"
  then have p: "\<not> streamReleased (after hasRequest sigs)" and m: "Timeout \<notin> set mid" by simp_all
  let ?s = "after hasRequest (sigs @ [End])"
  from pending_end[OF p] have a: "awaiting_forward ?s" and r: "settlements ?s = [Inr ()]" .
  from r show "promise ?s = Some (Inr ())" by (simp add: promise_def)
  have mid: "after hasRequest (sigs @ End # mid) = foldl handle ?s mid"
    by (simp add: after_def)
  from awaiting_foldl[OF a m] have a': "awaiting_forward (foldl handle ?s mid)" .
  with mid show "ends_emitted (after hasRequest (sigs @ End # mid)) = 0"
    by (simp add: awaiting_forward_def ends_emitted_def)
  have "after hasRequest (sigs @ End # mid @ Timeout # later)
      = foldl handle (handle (foldl handle ?s mid) Timeout) later"
    by (simp add: after_def)
  with forwarded_foldl[OF awaiting_timeout[OF a'], of later]
  show "ends_emitted (after hasRequest (sigs @ End # mid @ Timeout # later)) = 1"
    by (simp add: forwarded_def ends_emitted_def)
qed

text \<open>
  Claim C5, as the code has it. Take a stream that the initializer has released, the
  promise being resolved with it. When the stream signals an error \<open>e\<close>, which calls
  the listeners of the stream with \<open>e\<close>, the initializer stores \<open>e\<close> as an error
  not forwarded yet. When a readable signal, an end signal or the acknowledgement of the
  written request follows, the initializer emits \<open>e\<close> on the stream and clears what it
  stored: there are two \<^verbatim>\<open>'error'\<close> events carrying \<open>e\<close> on the released stream, so
  that its listeners are called with the one error twice, not exactly once.
\<close>

theorem released_error_heard_twice:
  assumes "promise (after hasRequest sigs) = Some (Inr ())"
    and "x = Readable \<or> x = End \<or> x = WriteDone \<and> 0 < writes (after hasRequest sigs)"
  shows "errorReceived (after hasRequest (sigs @ [Error e])) = Some e
       \<and> error_events hasRequest (sigs @ [Error e]) e = error_events hasRequest sigs e + 1
       \<and> emits (after hasRequest (sigs @ [Error e, x])) = emits (after hasRequest sigs) @ [EmitError e]
       \<and> errorReceived (after hasRequest (sigs @ [Error e, x])) = None
       \<and> error_events hasRequest (sigs @ [Error e, x]) e = error_events hasRequest sigs e + 2"
proof -
  let ?s = "after hasRequest sigs"
  from assms(1) have rel: "streamReleased ?s" by (rule resolved_released)
  have 1: "after hasRequest (sigs @ [Error e]) = ?s\<lparr>errorReceived := Some e\<rparr>"
    using rel by (simp add: after_snoc on_error_def)
  have 2: "after hasRequest (sigs @ [Error e, x]) = handle (?s\<lparr>errorReceived := Some e\<rparr>) x"
    using 1 after_snoc[of hasRequest "sigs @ [Error e]" x] by simp
  have 3: "emits (handle (?s\<lparr>errorReceived := Some e\<rparr>) x) = emits ?s @ [EmitError e]"
    "errorReceived (handle (?s\<lparr>errorReceived := Some e\<rparr>) x) = None"
    using assms(2) rel by (auto simp: stream_defs)
  from assms(2) have 4: "x \<noteq> Error e" by auto
  show ?thesis
    unfolding error_events_def 1 2 3 using 4 by simp
qed

text \<open>
  The theorem at a stream without a request that becomes readable, fails with an error
  and becomes readable again, and at a stream with a request that becomes readable and
  fails before its write is acknowledged.
\<close>

theorem released_error_heard_twice_witness:
  "promise (after False [Readable]) = Some (Inr ())
   \<and> error_events False [Readable] boom = 0
   \<and> errorReceived (after False ([Readable] @ [Error boom])) = Some boom
   \<and> error_events False ([Readable] @ [Error boom]) boom = 1
   \<and> emits (after False ([Readable] @ [Error boom, Readable])) = [EmitError boom]
   \<and> error_events False ([Readable] @ [Error boom, Readable]) boom = 2
   \<and> promise (after True [Readable]) = Some (Inr ())
   \<and> 0 < writes (after True [Readable])
   \<and> error_events True [Readable] boom = 0
   \<and> error_events True ([Readable] @ [Error boom, WriteDone]) boom = 2"
proof -
  have a: "promise (after False [Readable]) = Some (Inr ())"
    and b: "promise (after True [Readable]) = Some (Inr ())"
    and c: "0 < writes (after True [Readable])"
    and d: "error_events False [Readable] boom = 0" "error_events True [Readable] boom = 0"
    and e: "emits (after False [Readable]) = []"
    by (simp_all add: eval_stream error_events_def)
  from released_error_heard_twice[OF a, where x=Readable and e=boom]
  have 1: "errorReceived (after False ([Readable] @ [Error boom])) = Some boom"
    "error_events False ([Readable] @ [Error boom]) boom = 1"
    "emits (after False ([Readable] @ [Error boom, Readable])) = [EmitError boom]"
    "error_events False ([Readable] @ [Error boom, Readable]) boom = 2"
    unfolding d e by simp_all
  from released_error_heard_twice[OF b, where x=WriteDone and e=boom] c
  have 2: "error_events True ([Readable] @ [Error boom, WriteDone]) boom = 2"
    unfolding d by simp
  show ?thesis
    by (intro conjI) (rule a b c d 1 2)+
qed

section \<open>Properties of \<^verbatim>\<open>getAll_\<close>\<close>

lemma requestedDocuments_set:
  "set (requestedDocuments acc docRefs) = set acc \<union> formattedName ` set docRefs"
  by (induction docRefs arbitrary: acc) auto

lemma requestedDocuments_distinct:
  "distinct acc \<Longrightarrow> distinct (requestedDocuments acc docRefs)"
  by (induction docRefs arbitrary: acc) auto

lemma settle_Some [simp]: "settle x (Some y) = Some y"
  by (simp add: settle_def)

lemma settle_None [simp]: "settle x None = Some x"
  by (simp add: settle_def)

lemma orderDocuments_snd:
  "snd (orderDocuments s acc docRefs) = acc @ map (\<lambda>r. retrievedDocuments s (path r)) docRefs"
  by (induction docRefs arbitrary: s acc) (simp_all add: Let_def)

lemma orderDocuments_retrieved:
  "retrievedDocuments (fst (orderDocuments s acc docRefs)) = retrievedDocuments s"
  by (induction docRefs arbitrary: s acc) (simp_all add: Let_def)

lemma orderDocuments_present:
  "path ` set docRefs \<subseteq> dom (retrievedDocuments s) \<Longrightarrow> fst (orderDocuments s acc docRefs) = s"
  by (induction docRefs arbitrary: s acc) (auto simp: Let_def)

lemma orderDocuments_settled:
  "outcome s = Some x \<Longrightarrow> outcome (fst (orderDocuments s acc docRefs)) = Some x"
  by (induction docRefs arbitrary: s acc) (simp_all add: Let_def)

lemma orderDocuments_absent:
  "\<not> path ` set docRefs \<subseteq> dom (retrievedDocuments s) \<Longrightarrow> outcome s = None \<Longrightarrow>
   \<exists>e. outcome (fst (orderDocuments s acc docRefs)) = Some (Inl e)"
proof (induction docRefs arbitrary: s acc)
  case Nil
  then show ?case by simp
next
  case (Cons r docRefs)
  show ?case
  proof (cases "retrievedDocuments s (path r)")
    case None
    then show ?thesis using Cons.prems(2) by (simp add: Let_def orderDocuments_settled)
  next
    case (Some d)
    with Cons.prems have "\<not> path ` set docRefs \<subseteq> dom (retrievedDocuments s)" by auto
    from Cons.IH[OF this Cons.prems(2)] Some show ?thesis by (simp add: Let_def)
  qed
qed

lemma on_event_settled:
  "outcome s = Some x \<Longrightarrow> outcome (on_event fromName docRefs s ev) = Some x"
  by (cases ev) (auto simp: orderDocuments_settled split: sum.splits option.splits prod.splits
      dest: orderDocuments_settled[where acc="[]" and docRefs=docRefs])

lemma foldl_settled:
  "outcome s = Some x \<Longrightarrow> outcome (foldl (on_event fromName docRefs) s evs) = Some x"
  by (induction evs arbitrary: s) (simp_all add: on_event_settled)

lemma on_event_unresolved:
  "unresolved s \<Longrightarrow> ev \<noteq> OnEnd \<Longrightarrow> unresolved (on_event fromName docRefs s ev)"
  by (cases ev) (auto simp: unresolved_def settle_def split: sum.splits option.splits)

lemma foldl_unresolved:
  "unresolved s \<Longrightarrow> OnEnd \<notin> set evs \<Longrightarrow> unresolved (foldl (on_event fromName docRefs) s evs)"
proof (induction evs arbitrary: s)
  case Nil
  then show ?case by simp
next
  case (Cons ev evs)
  from Cons.prems have "ev \<noteq> OnEnd" "OnEnd \<notin> set evs" by auto
  with on_event_unresolved[OF Cons.prems(1), of ev] Cons.IH[of "on_event fromName docRefs s ev"]
  show ?case by simp
qed

lemma on_event_keyed:
  "keyed_by_path s \<Longrightarrow> keyed_by_path (on_event fromName docRefs s ev)"
proof (cases ev)
  case (OnError e)
  assume "keyed_by_path s"
  with OnError show ?thesis by (simp add: keyed_by_path_def)
next
  case (OnData resp)
  assume "keyed_by_path s"
  with OnData show ?thesis
    by (auto simp: keyed_by_path_def split: sum.splits option.splits)
next
  case OnEnd
  assume "keyed_by_path s"
  with OnEnd orderDocuments_retrieved[of s "[]" docRefs] show ?thesis
    by (auto simp: keyed_by_path_def split: prod.splits)
qed

lemma foldl_keyed:
  "keyed_by_path s \<Longrightarrow> keyed_by_path (foldl (on_event fromName docRefs) s evs)"
  by (induction evs arbitrary: s) (simp_all add: on_event_keyed)

lemma consume_keyed: "keyed_by_path (consume fromName docRefs evs)"
  unfolding consume_def by (rule foldl_keyed) (simp add: keyed_by_path_def)

lemma consume_end:
  "consume fromName docRefs (evs @ OnEnd # later) =
     foldl (on_event fromName docRefs)
       (on_event fromName docRefs (consume fromName docRefs evs) OnEnd) later"
  by (simp add: consume_def)

lemma end_resolves:
  assumes "outcome s = None" and "path ` set docRefs \<subseteq> dom (retrievedDocuments s)"
  shows "outcome (on_event fromName docRefs s OnEnd)
           = Some (Inr (map (\<lambda>r. retrievedDocuments s (path r)) docRefs))"
proof -
  have "orderDocuments s [] docRefs = (s, map (\<lambda>r. retrievedDocuments s (path r)) docRefs)"
    using orderDocuments_present[OF assms(2), of "[]"] orderDocuments_snd[of s "[]" docRefs]
    by (simp add: prod_eq_iff)
  with assms(1) show ?thesis by simp
qed

lemma end_rejects:
  assumes "unresolved s" and "\<not> path ` set docRefs \<subseteq> dom (retrievedDocuments s)"
  shows "\<exists>e. outcome (on_event fromName docRefs s OnEnd) = Some (Inl e)"
proof (cases "outcome s")
  case None
  from orderDocuments_absent[OF assms(2) None, of "[]"]
  obtain e where "outcome (fst (orderDocuments s [] docRefs)) = Some (Inl e)" by blast
  then show ?thesis by (auto split: prod.splits)
next
  case (Some x)
  with assms(1) obtain e where "x = Inl e" by (auto simp: unresolved_def split: sum.splits)
  with Some on_event_settled[of s "Inl e" fromName docRefs OnEnd] show ?thesis by simp
qed

text \<open>
  Claim C3. The request that \<^verbatim>\<open>getAll_\<close> issues lists the names of the requested
  references without duplicates. When the stream ends with no error before and every
  requested path has a result, whatever the order in which the results came, the promise
  is resolved with one snapshot for each requested reference, in the order of the request,
  each the result stored under the path of its reference. When the stream ends and the
  path of a requested reference has no result, the promise is rejected: no list is
  delivered.
\<close>

theorem getAll_restores_request_order:
  fixes readStream :: "'t batch_request \<Rightarrow> 'c stream_event list settled"
  shows "distinct (documents (fst (getAll db fromName readStream docRefs transactionId)))
   \<and> set (documents (fst (getAll db fromName readStream docRefs transactionId)))
       = formattedName ` set docRefs
   \<and> (readStream (fst (getAll db fromName readStream docRefs transactionId))
          = Inr (events @ OnEnd # later)
        \<and> outcome (consume fromName docRefs events) = None
        \<and> path ` set docRefs \<subseteq> dom (retrievedDocuments (consume fromName docRefs events)) \<longrightarrow>
        (\<exists>out. snd (getAll db fromName readStream docRefs transactionId) = Some (Inr out)
           \<and> length out = length docRefs
           \<and> (\<forall>i. i < length docRefs \<longrightarrow>
                 (\<exists>d. out ! i = Some d \<and> path (ref d) = path (docRefs ! i)
                    \<and> retrievedDocuments (consume fromName docRefs events) (path (docRefs ! i)) = Some d))))
   \<and> (readStream (fst (getAll db fromName readStream docRefs transactionId))
          = Inr (events @ OnEnd # later)
        \<and> OnEnd \<notin> set events
        \<and> \<not> path ` set docRefs \<subseteq> dom (retrievedDocuments (consume fromName docRefs events)) \<longrightarrow>
        (\<exists>e. snd (getAll db fromName readStream docRefs transactionId) = Some (Inl e)))"
proof -
  define issued :: "'t batch_request" where "issued =
    \<lparr>database = db, transaction = transactionId, documents = requestedDocuments [] docRefs\<rparr>"
  have req: "fst (getAll db fromName readStream docRefs transactionId) = issued"
    by (simp add: getAll_def issued_def Let_def)
  show ?thesis unfolding req
  proof (intro conjI impI)
  show "distinct (documents issued)"
    by (simp add: issued_def requestedDocuments_distinct)
  show "set (documents issued) = formattedName ` set docRefs"
    by (simp add: issued_def requestedDocuments_set)
next
  let ?s = "consume fromName docRefs events"
  assume h: "readStream issued = Inr (events @ OnEnd # later) \<and> outcome ?s = None
      \<and> path ` set docRefs \<subseteq> dom (retrievedDocuments ?s)"
  then have rs: "readStream issued = Inr (events @ OnEnd # later)" and pend: "outcome ?s = None"
    and all: "path ` set docRefs \<subseteq> dom (retrievedDocuments ?s)" by simp_all
  let ?out = "map (\<lambda>r. retrievedDocuments ?s (path r)) docRefs"
  from end_resolves[OF pend all, of fromName]
  have "outcome (consume fromName docRefs (events @ OnEnd # later)) = Some (Inr ?out)"
    by (simp add: consume_end foldl_settled)
  with rs have res: "snd (getAll db fromName readStream docRefs transactionId) = Some (Inr ?out)"
    by (simp add: getAll_def Let_def issued_def)
  have "\<exists>d. ?out ! i = Some d \<and> path (ref d) = path (docRefs ! i)
      \<and> retrievedDocuments ?s (path (docRefs ! i)) = Some d" if "i < length docRefs" for i
  proof -
    from that have "docRefs ! i \<in> set docRefs" by simp
    with all have "path (docRefs ! i) \<in> dom (retrievedDocuments ?s)" by blast
    then obtain d where d: "retrievedDocuments ?s (path (docRefs ! i)) = Some d" by auto
    with consume_keyed[of fromName docRefs events] have "path (ref d) = path (docRefs ! i)"
      by (simp add: keyed_by_path_def)
    with d that show ?thesis by simp
  qed
  with res show "\<exists>out. snd (getAll db fromName readStream docRefs transactionId) = Some (Inr out)
           \<and> length out = length docRefs
           \<and> (\<forall>i. i < length docRefs \<longrightarrow>
                 (\<exists>d. out ! i = Some d \<and> path (ref d) = path (docRefs ! i)
                    \<and> retrievedDocuments ?s (path (docRefs ! i)) = Some d))"
    by (intro exI[where x="?out"]) simp
next
  let ?s = "consume fromName docRefs events"
  assume h: "readStream issued = Inr (events @ OnEnd # later) \<and> OnEnd \<notin> set events
      \<and> \<not> path ` set docRefs \<subseteq> dom (retrievedDocuments ?s)"
  then have rs: "readStream issued = Inr (events @ OnEnd # later)" and ne: "OnEnd \<notin> set events"
    and absent: "\<not> path ` set docRefs \<subseteq> dom (retrievedDocuments ?s)" by simp_all
  have "unresolved ?s"
    unfolding consume_def by (rule foldl_unresolved[OF _ ne]) (simp add: unresolved_def)
  from end_rejects[OF this absent, of fromName]
  obtain e where "outcome (on_event fromName docRefs ?s OnEnd) = Some (Inl e)" by blast
  then have "outcome (consume fromName docRefs (events @ OnEnd # later)) = Some (Inl e)"
    by (simp add: consume_end foldl_settled)
  with rs show "\<exists>e. snd (getAll db fromName readStream docRefs transactionId) = Some (Inl e)"
    by (simp add: getAll_def Let_def issued_def)
qed
qed

lemmas eval_getAll = getAll_def consume_def Let_def scripted_stream_def snapshot_of_def
  ref_of_name_def docA_def docB_def foundA_def missingB_def settle_def did_not_receive_def

text \<open>
  The theorem at the request [B, A, B] answered by A and then B, and at the request [A, B]
  answered by A alone.
\<close>

theorem getAll_restores_request_order_witness:
  "scripted_stream [OnData foundA, OnData missingB, OnEnd]
       (fst (getAll ''db'' ref_of_name (scripted_stream [OnData foundA, OnData missingB, OnEnd])
          [docB, docA, docB] (None :: nat option)))
     = Inr ([OnData foundA, OnData missingB] @ OnEnd # [])
   \<and> outcome (consume ref_of_name [docB, docA, docB] [OnData foundA, OnData missingB]) = None
   \<and> path ` set [docB, docA, docB]
       \<subseteq> dom (retrievedDocuments (consume ref_of_name [docB, docA, docB] [OnData foundA, OnData missingB]))
   \<and> documents (fst (getAll ''db'' ref_of_name (scripted_stream [OnData foundA, OnData missingB, OnEnd])
          [docB, docA, docB] (None :: nat option))) = [''db/c/b'', ''db/c/a'']
   \<and> (\<exists>out. snd (getAll ''db'' ref_of_name (scripted_stream [OnData foundA, OnData missingB, OnEnd])
          [docB, docA, docB] (None :: nat option)) = Some (Inr out)
         \<and> map (map_option (\<lambda>d. path (ref d))) out = [Some ''c/b'', Some ''c/a'', Some ''c/b''])
   \<and> scripted_stream [OnData foundA, OnEnd]
       (fst (getAll ''db'' ref_of_name (scripted_stream [OnData foundA, OnEnd]) [docA, docB] (None :: nat option)))
     = Inr ([OnData foundA] @ OnEnd # [])
   \<and> OnEnd \<notin> set [OnData foundA]
   \<and> \<not> path ` set [docA, docB]
       \<subseteq> dom (retrievedDocuments (consume ref_of_name [docA, docB] [OnData foundA]))
   \<and> snd (getAll ''db'' ref_of_name (scripted_stream [OnData foundA, OnEnd]) [docA, docB] (None :: nat option))
       = Some (Inl (did_not_receive ''c/b''))"
proof -
  let ?r1 = "scripted_stream [OnData foundA, OnData missingB, OnEnd]
    :: nat batch_request \<Rightarrow> nat stream_event list settled"
  let ?r2 = "scripted_stream [OnData foundA, OnEnd]
    :: nat batch_request \<Rightarrow> nat stream_event list settled"
  have a: "?r1 (fst (getAll ''db'' ref_of_name ?r1 [docB, docA, docB] None))
      = Inr ([OnData foundA, OnData missingB] @ OnEnd # [])"
    "outcome (consume ref_of_name [docB, docA, docB] [OnData foundA, OnData missingB]) = None"
    "path ` set [docB, docA, docB]
       \<subseteq> dom (retrievedDocuments (consume ref_of_name [docB, docA, docB] [OnData foundA, OnData missingB]))"
    by (simp_all add: eval_getAll)
  have b: "?r2 (fst (getAll ''db'' ref_of_name ?r2 [docA, docB] None)) = Inr ([OnData foundA] @ OnEnd # [])"
    "OnEnd \<notin> set [OnData foundA]"
    "\<not> path ` set [docA, docB]
       \<subseteq> dom (retrievedDocuments (consume ref_of_name [docA, docB] [OnData foundA]))"
    by (simp_all add: eval_getAll)
  have c: "documents (fst (getAll ''db'' ref_of_name ?r1 [docB, docA, docB] None)) = [''db/c/b'', ''db/c/a'']"
    by (simp add: eval_getAll)
  have d: "snd (getAll ''db'' ref_of_name ?r2 [docA, docB] None) = Some (Inl (did_not_receive ''c/b''))"
    by (simp add: eval_getAll)
  note T = getAll_restores_request_order[where readStream="?r1" and db="''db''" and fromName=ref_of_name
      and docRefs="[docB, docA, docB]" and transactionId=None
      and events="[OnData foundA, OnData missingB]" and later="[]"]
  from T[THEN conjunct2, THEN conjunct2, THEN conjunct1, THEN mp, OF conjI[OF a(1) conjI[OF a(2) a(3)]]]
  obtain out where o: "snd (getAll ''db'' ref_of_name ?r1 [docB, docA, docB] None) = Some (Inr out)"
    by (elim exE conjE)
  have "snd (getAll ''db'' ref_of_name ?r1 [docB, docA, docB] None)
     = Some (Inr [Some \<lparr>ref = docB, fieldsProto = None, snapshotReadTime = Some 7\<rparr>,
                  Some \<lparr>ref = docA, fieldsProto = Some 1, snapshotReadTime = Some 7\<rparr>,
                  Some \<lparr>ref = docB, fieldsProto = None, snapshotReadTime = Some 7\<rparr>])"
    by (simp add: eval_getAll)
  with o have e: "map (map_option (\<lambda>d. path (ref d))) out = [Some ''c/b'', Some ''c/a'', Some ''c/b'']"
    by (simp add: docA_def docB_def)
  from o e have ex: "\<exists>out. snd (getAll ''db'' ref_of_name ?r1 [docB, docA, docB] None) = Some (Inr out)
         \<and> map (map_option (\<lambda>d. path (ref d))) out = [Some ''c/b'', Some ''c/a'', Some ''c/b'']"
    by (intro exI[where x=out] conjI)
  show ?thesis
    by (intro conjI) (rule a b c d ex)+
qed

section \<open>Properties of \<^verbatim>\<open>runTransaction\<close>\<close>

lemma budget_retry:
  "0 < n \<Longrightarrow> budget (Some \<lparr>maxAttempts = Some n, previousTransaction = p\<rparr>) = n"
  by (simp add: budget_def maxAttempts_or_def)

lemma first_transaction_retry:
  "first_transaction (Some \<lparr>maxAttempts = m, previousTransaction = Some t\<rparr>)
     (s\<lparr>constructed := constructed s + 1, history := h, backend := w\<rparr>)
   = Transaction (constructed s + 1) (Some t)"
  by (simp add: first_transaction_def)

lemma runTransaction_commits:
  assumes "accepted env transactionOptions"
    and "attempt env updateFunction (first_transaction transactionOptions s) (backend s) v (Inr ())"
  shows "runTransaction env updateFunction transactionOptions s =
           (Inr v, s\<lparr>constructed := constructed s + 1,
                      history := history s @ cycles (first_transaction transactionOptions s) 0,
                      backend := after_commit env updateFunction
                                   (first_transaction transactionOptions s) (backend s)\<rparr>)"
  using assms
  by (subst runTransaction.simps)
    (auto simp: accepted_def attempt_def first_transaction_def after_commit_def after_run_def
      after_begin_def Let_def split: option.splits)

lemma runTransaction_exhausted:
  assumes "accepted env transactionOptions"
    and "conflict env updateFunction (first_transaction transactionOptions s) (backend s)"
    and "fst (commit_tx env (first_transaction transactionOptions s)
           (after_run env updateFunction (first_transaction transactionOptions s) (backend s))) = Inl e"
    and "budget transactionOptions \<le> 1"
  shows "runTransaction env updateFunction transactionOptions s =
           (Inl e, s\<lparr>constructed := constructed s + 1,
                      history := history s @ cycles (first_transaction transactionOptions s) 0,
                      backend := after_commit env updateFunction
                                   (first_transaction transactionOptions s) (backend s)\<rparr>)"
  using assms
  by (subst runTransaction.simps)
    (auto simp: accepted_def conflict_def first_transaction_def after_commit_def after_run_def
      after_begin_def Let_def split: option.splits sum.splits callback_result.splits)

lemma runTransaction_retries:
  assumes "accepted env transactionOptions"
    and "conflict env updateFunction (first_transaction transactionOptions s) (backend s)"
    and "1 < budget transactionOptions"
  shows "runTransaction env updateFunction transactionOptions s =
           runTransaction env updateFunction
             (Some \<lparr>maxAttempts = Some (budget transactionOptions - 1),
                    previousTransaction = Some (first_transaction transactionOptions s)\<rparr>)
             (s\<lparr>constructed := constructed s + 1,
                history := history s @ cycles (first_transaction transactionOptions s) 0,
                backend := after_commit env updateFunction
                             (first_transaction transactionOptions s) (backend s)\<rparr>)"
  using assms
  by (subst runTransaction.simps)
    (auto simp: accepted_def conflict_def first_transaction_def after_commit_def after_run_def
      after_begin_def Let_def split: option.splits sum.splits callback_result.splits)

lemma runTransaction_rolls_back:
  assumes "accepted env transactionOptions"
    and "fst (begin_tx env (first_transaction transactionOptions s) (backend s)) = Inr ()"
    and "fst (updateFunction (first_transaction transactionOptions s)
           (after_begin env (first_transaction transactionOptions s) (backend s))) = Returns (Inl e)"
  shows "runTransaction env updateFunction transactionOptions s =
           ((case fst (rollback_tx env (first_transaction transactionOptions s)
                    (after_run env updateFunction (first_transaction transactionOptions s) (backend s))) of
               Inl e' \<Rightarrow> Inl e' | Inr u \<Rightarrow> Inl e),
            s\<lparr>constructed := constructed s + 1,
              history := history s @ [Begin (first_transaction transactionOptions s),
                                      Run (first_transaction transactionOptions s),
                                      Rollback (first_transaction transactionOptions s)],
              backend := snd (rollback_tx env (first_transaction transactionOptions s)
                    (after_run env updateFunction (first_transaction transactionOptions s) (backend s)))\<rparr>)"
  using assms
  by (subst runTransaction.simps)
    (auto simp: accepted_def first_transaction_def after_run_def after_begin_def Let_def
      split: option.splits sum.splits)

lemma successor_first:
  "Transaction (constructed s + 1) (Some (first_transaction transactionOptions s))
     = successor (first_transaction transactionOptions s)"
  by (simp add: successor_def first_transaction_def)

lemma accepted_retry:
  assumes "\<forall>n. 1 \<le> n \<longrightarrow> isOptionalInteger env (Some n) = None" and "1 \<le> n"
  shows "accepted env (Some \<lparr>maxAttempts = Some n, previousTransaction = p\<rparr>)"
  using assms by (simp add: accepted_def)

lemma runTransaction_conflicts_then_commits:
  assumes valid: "\<forall>n. 1 \<le> n \<longrightarrow> isOptionalInteger env (Some n) = None"
  shows "accepted env transactionOptions \<Longrightarrow>
     conflicts_then_commits env updateFunction (first_transaction transactionOptions s) (backend s) k v \<Longrightarrow>
     int k < budget transactionOptions \<Longrightarrow>
     fst (runTransaction env updateFunction transactionOptions s) = Inr v
     \<and> history (snd (runTransaction env updateFunction transactionOptions s))
         = history s @ cycles (first_transaction transactionOptions s) k
     \<and> constructed (snd (runTransaction env updateFunction transactionOptions s))
         = constructed s + k + 1"
proof (induction k arbitrary: transactionOptions s)
  case 0
  then show ?case by (simp add: runTransaction_commits)
next
  case (Suc k)
  let ?t = "first_transaction transactionOptions s"
  let ?n = "budget transactionOptions"
  let ?opts = "Some \<lparr>maxAttempts = Some (?n - 1), previousTransaction = Some ?t\<rparr>"
  let ?s = "s\<lparr>constructed := constructed s + 1, history := history s @ cycles ?t 0,
              backend := after_commit env updateFunction ?t (backend s)\<rparr>"
  from Suc.prems(2) have c: "conflict env updateFunction ?t (backend s)"
    and rest: "conflicts_then_commits env updateFunction (successor ?t)
      (after_commit env updateFunction ?t (backend s)) k v"
    by simp_all
  from Suc.prems(3) have n: "1 < ?n" and n': "1 \<le> ?n - 1" "0 < ?n - 1" by simp_all
  have eq: "runTransaction env updateFunction transactionOptions s
      = runTransaction env updateFunction ?opts ?s"
    by (rule runTransaction_retries[OF Suc.prems(1) c n])
  have acc: "accepted env ?opts" by (rule accepted_retry[OF valid n'(1)])
  have ft: "first_transaction ?opts ?s = successor ?t"
    by (simp add: first_transaction_def successor_def)
  have bs: "backend ?s = after_commit env updateFunction ?t (backend s)" by simp
  have "budget ?opts = ?n - 1" by (rule budget_retry[OF n'(2)])
  with Suc.prems(3) have bud: "int k < budget ?opts" by simp
  from rest have rest': "conflicts_then_commits env updateFunction (first_transaction ?opts ?s)
      (backend ?s) k v"
    unfolding ft bs .
  from Suc.IH[OF acc rest' bud]
  have "fst (runTransaction env updateFunction ?opts ?s) = Inr v"
    "history (snd (runTransaction env updateFunction ?opts ?s)) = history ?s @ cycles (successor ?t) k"
    "constructed (snd (runTransaction env updateFunction ?opts ?s)) = constructed ?s + k + 1"
    unfolding ft by simp_all
  then show ?case unfolding eq by simp
qed

lemma runTransaction_conflicts_throughout:
  assumes valid: "\<forall>n. 1 \<le> n \<longrightarrow> isOptionalInteger env (Some n) = None"
  shows "accepted env transactionOptions \<Longrightarrow>
     conflicts_throughout env updateFunction (first_transaction transactionOptions s) (backend s) k e \<Longrightarrow>
     budget transactionOptions = int k + 1 \<Longrightarrow>
     fst (runTransaction env updateFunction transactionOptions s) = Inl e
     \<and> history (snd (runTransaction env updateFunction transactionOptions s))
         = history s @ cycles (first_transaction transactionOptions s) k
     \<and> constructed (snd (runTransaction env updateFunction transactionOptions s))
         = constructed s + k + 1"
proof (induction k arbitrary: transactionOptions s)
  case 0
  then show ?case by (simp add: runTransaction_exhausted)
next
  case (Suc k)
  let ?t = "first_transaction transactionOptions s"
  let ?n = "budget transactionOptions"
  let ?opts = "Some \<lparr>maxAttempts = Some (?n - 1), previousTransaction = Some ?t\<rparr>"
  let ?s = "s\<lparr>constructed := constructed s + 1, history := history s @ cycles ?t 0,
              backend := after_commit env updateFunction ?t (backend s)\<rparr>"
  from Suc.prems(2) have c: "conflict env updateFunction ?t (backend s)"
    and rest: "conflicts_throughout env updateFunction (successor ?t)
      (after_commit env updateFunction ?t (backend s)) k e"
    by simp_all
  from Suc.prems(3) have n: "1 < ?n" and n': "1 \<le> ?n - 1" "0 < ?n - 1" by simp_all
  have eq: "runTransaction env updateFunction transactionOptions s
      = runTransaction env updateFunction ?opts ?s"
    by (rule runTransaction_retries[OF Suc.prems(1) c n])
  have acc: "accepted env ?opts" by (rule accepted_retry[OF valid n'(1)])
  have ft: "first_transaction ?opts ?s = successor ?t"
    by (simp add: first_transaction_def successor_def)
  have bs: "backend ?s = after_commit env updateFunction ?t (backend s)" by simp
  have "budget ?opts = ?n - 1" by (rule budget_retry[OF n'(2)])
  with Suc.prems(3) have bud: "budget ?opts = int k + 1" by simp
  from rest have rest': "conflicts_throughout env updateFunction (first_transaction ?opts ?s)
      (backend ?s) k e"
    unfolding ft bs .
  from Suc.IH[OF acc rest' bud]
  have "fst (runTransaction env updateFunction ?opts ?s) = Inl e"
    "history (snd (runTransaction env updateFunction ?opts ?s)) = history ?s @ cycles (successor ?t) k"
    "constructed (snd (runTransaction env updateFunction ?opts ?s)) = constructed ?s + k + 1"
    unfolding ft by simp_all
  then show ?case unfolding eq by simp
qed

text \<open>
  Claim C2. Let the validator accept every number of attempts from 1 on and the options
  of the call. When \<^verbatim>\<open>begin\<close> succeeds, the function returns a fulfilled promise, the
  commit fails and more than one attempt is left, \<^verbatim>\<open>runTransaction\<close> goes on as a new
  call with one attempt less and \<^verbatim>\<open>previousTransaction\<close> set to the transaction that
  failed, and so begins, runs and commits anew. If the commits of \<open>k\<close> attempts fail and
  the next one succeeds, with \<open>k\<close> below the budget, the result is what the function
  returned in that last attempt and exactly \<open>k + 1\<close> cycles were made, each with a new
  transaction built on the one before. If the commits of all attempts of a budget of
  \<open>k + 1\<close> fail, exactly \<open>k + 1\<close> cycles were made and the promise is rejected with the
  error of the last commit.
\<close>

theorem runTransaction_retries_on_conflict:
  assumes "\<forall>n. 1 \<le> n \<longrightarrow> isOptionalInteger env (Some n) = None"
    and "accepted env transactionOptions"
  shows "(conflict env updateFunction (first_transaction transactionOptions s) (backend s)
          \<and> 1 < budget transactionOptions \<longrightarrow>
          runTransaction env updateFunction transactionOptions s =
            runTransaction env updateFunction
              (Some \<lparr>maxAttempts = Some (budget transactionOptions - 1),
                     previousTransaction = Some (first_transaction transactionOptions s)\<rparr>)
              (s\<lparr>constructed := constructed s + 1,
                 history := history s @ [Begin (first_transaction transactionOptions s),
                                         Run (first_transaction transactionOptions s),
                                         Commit (first_transaction transactionOptions s)],
                 backend := after_commit env updateFunction
                              (first_transaction transactionOptions s) (backend s)\<rparr>))
       \<and> (conflicts_then_commits env updateFunction (first_transaction transactionOptions s)
            (backend s) k v \<and> int k < budget transactionOptions \<longrightarrow>
          fst (runTransaction env updateFunction transactionOptions s) = Inr v
          \<and> history (snd (runTransaction env updateFunction transactionOptions s))
              = history s @ cycles (first_transaction transactionOptions s) k)
       \<and> (conflicts_throughout env updateFunction (first_transaction transactionOptions s)
            (backend s) k e \<and> budget transactionOptions = int k + 1 \<longrightarrow>
          fst (runTransaction env updateFunction transactionOptions s) = Inl e
          \<and> history (snd (runTransaction env updateFunction transactionOptions s))
              = history s @ cycles (first_transaction transactionOptions s) k)"
proof (intro conjI impI)
  assume "conflict env updateFunction (first_transaction transactionOptions s) (backend s)
      \<and> 1 < budget transactionOptions"
  then have "runTransaction env updateFunction transactionOptions s =
           runTransaction env updateFunction
             (Some \<lparr>maxAttempts = Some (budget transactionOptions - 1),
                    previousTransaction = Some (first_transaction transactionOptions s)\<rparr>)
             (s\<lparr>constructed := constructed s + 1,
                history := history s @ cycles (first_transaction transactionOptions s) 0,
                backend := after_commit env updateFunction
                             (first_transaction transactionOptions s) (backend s)\<rparr>)"
    by (intro runTransaction_retries[OF assms(2)]) simp_all
  then show "runTransaction env updateFunction transactionOptions s =
            runTransaction env updateFunction
              (Some \<lparr>maxAttempts = Some (budget transactionOptions - 1),
                     previousTransaction = Some (first_transaction transactionOptions s)\<rparr>)
              (s\<lparr>constructed := constructed s + 1,
                 history := history s @ [Begin (first_transaction transactionOptions s),
                                         Run (first_transaction transactionOptions s),
                                         Commit (first_transaction transactionOptions s)],
                 backend := after_commit env updateFunction
                              (first_transaction transactionOptions s) (backend s)\<rparr>)"
    by simp
next
  assume h: "conflicts_then_commits env updateFunction (first_transaction transactionOptions s)
            (backend s) k v \<and> int k < budget transactionOptions"
  from runTransaction_conflicts_then_commits[OF assms(1) assms(2), of updateFunction s k v] h
  show "fst (runTransaction env updateFunction transactionOptions s) = Inr v"
    and "history (snd (runTransaction env updateFunction transactionOptions s))
              = history s @ cycles (first_transaction transactionOptions s) k"
    by blast+
next
  assume h: "conflicts_throughout env updateFunction (first_transaction transactionOptions s)
            (backend s) k e \<and> budget transactionOptions = int k + 1"
  from runTransaction_conflicts_throughout[OF assms(1) assms(2), of updateFunction s k e] h
  show "fst (runTransaction env updateFunction transactionOptions s) = Inl e"
    and "history (snd (runTransaction env updateFunction transactionOptions s))
              = history s @ cycles (first_transaction transactionOptions s) k"
    by blast+
qed

lemmas eval_tx = contended_def returns_number_def rejects_def no_transactions_def at_least_one_def
  accepted_def first_transaction_def conflict_def attempt_def after_begin_def after_run_def
  after_commit_def successor_def budget_def maxAttempts_or_def tx0_def tx1_def tx2_def

lemma at_least_one_accepts: "\<forall>n. 1 \<le> n \<longrightarrow> isOptionalInteger (contended fails r) (Some n) = None"
  by (simp add: contended_def at_least_one_def)

text \<open>
  The theorem at a budget of 5 with two failed commits (three cycles, the result of the
  third attempt) and at a budget of 2 with commits that always fail (two cycles, the error
  of the second commit).
\<close>

theorem runTransaction_retries_on_conflict_witness:
  "accepted (contended (\<lambda>n. n < 2) False) (Some \<lparr>maxAttempts = Some 5, previousTransaction = None\<rparr>)
   \<and> conflicts_then_commits (contended (\<lambda>n. n < 2) False) returns_number tx0 0 2 2
   \<and> fst (runTransaction (contended (\<lambda>n. n < 2) False) returns_number
            (Some \<lparr>maxAttempts = Some 5, previousTransaction = None\<rparr>) no_transactions) = Inr 2
   \<and> history (snd (runTransaction (contended (\<lambda>n. n < 2) False) returns_number
            (Some \<lparr>maxAttempts = Some 5, previousTransaction = None\<rparr>) no_transactions))
       = [Begin tx0, Run tx0, Commit tx0, Begin tx1, Run tx1, Commit tx1, Begin tx2, Run tx2, Commit tx2]
   \<and> accepted (contended (\<lambda>n. True) False) (Some \<lparr>maxAttempts = Some 2, previousTransaction = None\<rparr>)
   \<and> conflicts_throughout (contended (\<lambda>n. True) False) returns_number tx0 0 1 (aborted 1)
   \<and> fst (runTransaction (contended (\<lambda>n. True) False) returns_number
            (Some \<lparr>maxAttempts = Some 2, previousTransaction = None\<rparr>) no_transactions) = Inl (aborted 1)
   \<and> history (snd (runTransaction (contended (\<lambda>n. True) False) returns_number
            (Some \<lparr>maxAttempts = Some 2, previousTransaction = None\<rparr>) no_transactions))
       = [Begin tx0, Run tx0, Commit tx0, Begin tx1, Run tx1, Commit tx1]"
proof -
  let ?five = "Some \<lparr>maxAttempts = Some 5, previousTransaction = None\<rparr>"
  let ?two = "Some \<lparr>maxAttempts = Some 2, previousTransaction = None\<rparr>"
  let ?A = "contended (\<lambda>n. n < 2) False"
  let ?B = "contended (\<lambda>n. True) False"
  have ft: "first_transaction ?five no_transactions = tx0" "first_transaction ?two no_transactions = tx0"
    "backend no_transactions = 0" "history no_transactions = []"
    by (simp_all add: first_transaction_def no_transactions_def tx0_def)
  have a: "accepted ?A ?five" by (simp add: eval_tx)
  have a': "conflicts_then_commits ?A returns_number tx0 0 2 2" "int 2 < budget ?five"
    by (simp_all add: eval_tx numeral_2_eq_2)
  have b: "accepted ?B ?two" by (simp add: eval_tx)
  have b': "conflicts_throughout ?B returns_number tx0 0 1 (aborted 1)" "budget ?two = int 1 + 1"
    by (simp_all add: eval_tx)
  have c: "cycles tx0 2 = [Begin tx0, Run tx0, Commit tx0, Begin tx1, Run tx1, Commit tx1,
      Begin tx2, Run tx2, Commit tx2]"
    "cycles tx0 1 = [Begin tx0, Run tx0, Commit tx0, Begin tx1, Run tx1, Commit tx1]"
    by (simp_all add: numeral_2_eq_2 successor_def tx0_def tx1_def tx2_def)
  note A = runTransaction_retries_on_conflict[OF at_least_one_accepts a,
      where updateFunction=returns_number and s=no_transactions and k=2 and v=2, unfolded ft]
  note B = runTransaction_retries_on_conflict[OF at_least_one_accepts b,
      where updateFunction=returns_number and s=no_transactions and k=1 and e="aborted 1", unfolded ft]
  from A a' have 1: "fst (runTransaction ?A returns_number ?five no_transactions) = Inr 2"
    "history (snd (runTransaction ?A returns_number ?five no_transactions)) = [] @ cycles tx0 2"
    by blast+
  from B b' have 2: "fst (runTransaction ?B returns_number ?two no_transactions) = Inl (aborted 1)"
    "history (snd (runTransaction ?B returns_number ?two no_transactions)) = [] @ cycles tx0 1"
    by blast+
  from a a'(1) 1 b b'(1) 2 show ?thesis unfolding c by simp
qed

text \<open>
  Claim C6, as the code has it. When the function returns a rejected promise,
  \<^verbatim>\<open>runTransaction\<close> calls \<^verbatim>\<open>rollback\<close> and neither commits nor starts another
  attempt. It rejects with the error of the function if the rollback succeeds; if the
  rollback fails, it rejects with the error of the rollback, which takes the place of the
  error of the function.
\<close>

theorem runTransaction_after_callback_failure:
  assumes "accepted env transactionOptions"
    and "fst (begin_tx env (first_transaction transactionOptions s) (backend s)) = Inr ()"
    and "fst (updateFunction (first_transaction transactionOptions s)
           (after_begin env (first_transaction transactionOptions s) (backend s))) = Returns (Inl e)"
  shows "fst (runTransaction env updateFunction transactionOptions s) =
           (case fst (rollback_tx env (first_transaction transactionOptions s)
                    (after_run env updateFunction (first_transaction transactionOptions s) (backend s))) of
              Inl e' \<Rightarrow> Inl e'
            | Inr u \<Rightarrow> Inl e)
       \<and> history (snd (runTransaction env updateFunction transactionOptions s)) =
           history s @ [Begin (first_transaction transactionOptions s),
                        Run (first_transaction transactionOptions s),
                        Rollback (first_transaction transactionOptions s)]"
  by (simp add: runTransaction_rolls_back[where env=env and updateFunction=updateFunction
        and transactionOptions=transactionOptions and s=s and e=e, OF assms])

text \<open>
  The theorem at a function that rejects with \<open>cancelled\<close>: with a rollback that fails
  the result is the error of the rollback, with one that succeeds it is \<open>cancelled\<close>.
\<close>

theorem runTransaction_after_callback_failure_witness:
  "accepted (contended (\<lambda>n. False) True) None
   \<and> fst (begin_tx (contended (\<lambda>n. False) True) (first_transaction None no_transactions)
        (backend no_transactions)) = Inr ()
   \<and> fst (rejects (first_transaction None no_transactions)
        (after_begin (contended (\<lambda>n. False) True) (first_transaction None no_transactions)
           (backend no_transactions))) = Returns (Inl cancelled)
   \<and> fst (runTransaction (contended (\<lambda>n. False) True) rejects None no_transactions) = Inl rollback_refused
   \<and> rollback_refused \<noteq> cancelled
   \<and> history (snd (runTransaction (contended (\<lambda>n. False) True) rejects None no_transactions))
       = [Begin tx0, Run tx0, Rollback tx0]
   \<and> fst (runTransaction (contended (\<lambda>n. False) False) rejects None no_transactions) = Inl cancelled"
proof -
  let ?E = "contended (\<lambda>n. False) True"
  let ?F = "contended (\<lambda>n. False) False"
  have a: "accepted ?E None"
    "fst (begin_tx ?E (first_transaction None no_transactions) (backend no_transactions)) = Inr ()"
    "fst (rejects (first_transaction None no_transactions)
        (after_begin ?E (first_transaction None no_transactions) (backend no_transactions)))
      = Returns (Inl cancelled)"
    by (simp_all add: eval_tx)
  have b: "accepted ?F None"
    "fst (begin_tx ?F (first_transaction None no_transactions) (backend no_transactions)) = Inr ()"
    "fst (rejects (first_transaction None no_transactions)
        (after_begin ?F (first_transaction None no_transactions) (backend no_transactions)))
      = Returns (Inl cancelled)"
    by (simp_all add: eval_tx)
  have c: "rollback_refused \<noteq> cancelled" by (simp add: rollback_refused_def cancelled_def)
  from runTransaction_after_callback_failure[where env="?E" and updateFunction=rejects
      and transactionOptions=None and s=no_transactions and e=cancelled, OF a]
  have 1: "fst (runTransaction ?E rejects None no_transactions) = Inl rollback_refused"
    "history (snd (runTransaction ?E rejects None no_transactions)) = [Begin tx0, Run tx0, Rollback tx0]"
    by (simp_all add: eval_tx)
  from runTransaction_after_callback_failure[where env="?F" and updateFunction=rejects
      and transactionOptions=None and s=no_transactions and e=cancelled, OF b]
  have 2: "fst (runTransaction ?F rejects None no_transactions) = Inl cancelled"
    by (simp add: eval_tx)
  from a c 1 2 show ?thesis by simp
qed

section \<open>Properties of \<^verbatim>\<open>request\<close>\<close>

lemma runRequest_prepared:
  assumes "prepared env s = Some (c, s0)"
  shows "runRequest env op s =
           (case op c s0 of
              None \<Rightarrow> None
            | Some (r, s3) \<Rightarrow>
                Some (r, s3\<lparr>inst := (inst s3)\<lparr>clientPool :=
                                       map_option (release c) (clientPool (inst s3))\<rparr>\<rparr>))"
  using assms
  by (auto simp: prepared_def runRequest_def Let_def
      split: prod.splits option.splits init_status.splits)

lemma initClientPool_calls:
  "calls (snd (initClientPool s)) = calls s \<and> delays (snd (initClientPool s)) = delays s"
  by (auto simp: initClientPool_def Let_def split: prod.splits)

lemma runRequest_sync_calls:
  "calls (snd (runRequest_sync s)) = calls s \<and> delays (snd (runRequest_sync s)) = delays s"
  using initClientPool_calls[of s]
  by (auto simp: runRequest_sync_def split: prod.splits sum.splits)

lemma initSettles_calls:
  "calls (initSettles env s) = calls s \<and> delays (initSettles env s) = delays s"
  by (auto simp: initSettles_def split: option.splits init_status.splits sum.splits)

lemma prepared_calls:
  assumes "prepared env s = Some (c, s0)"
  shows "calls s0 = calls s" and "delays s0 = delays s"
  using assms runRequest_sync_calls[of s] initSettles_calls[of env "snd (runRequest_sync s)"]
  by (auto simp: prepared_def Let_def split: prod.splits option.splits init_status.splits)

text \<open>
  Claim C7. Take a call of \<^verbatim>\<open>request\<close> whose client pool gets initialized. If every
  invocation of the method fails with a transient error, the call makes exactly 5
  attempts when \<^verbatim>\<open>allowRetries\<close> is true and exactly 1 otherwise, and is rejected: this
  is its budget. If the method fails transiently \<open>k\<close> times, \<open>k < 5\<close>, and then
  succeeds, the call with \<^verbatim>\<open>allowRetries\<close> makes exactly \<open>k + 1\<close> attempts and is
  resolved with the value of the success; without \<^verbatim>\<open>allowRetries\<close> a method that
  succeeds at once is invoked once.
\<close>

theorem request_attempt_budget:
  assumes "prepared env s = Some (gapicClient, s0)"
  shows "(always_transient (request_func env gapicClient methodName (inst s0) r) \<longrightarrow>
            (\<exists>e s'. request env methodName r allowRetries s = Some (Inl e, s')
               \<and> int (calls s') = int (calls s) + (if allowRetries then MAX_REQUEST_RETRIES else 1)))
       \<and> (fails_then_succeeds (request_func env gapicClient methodName (inst s0) r) (world s0) k v
            \<and> k < 5 \<longrightarrow>
            (\<exists>s'. request env methodName r True s = Some (Inr v, s') \<and> calls s' = calls s + k + 1))
       \<and> (fails_then_succeeds (request_func env gapicClient methodName (inst s0) r) (world s0) 0 v \<longrightarrow>
            (\<exists>s'. request env methodName r False s = Some (Inr v, s') \<and> calls s' = calls s + 1))"
proof (intro conjI impI)
  let ?func = "request_func env gapicClient methodName (inst s0) r"
  note c0 = prepared_calls(1)[OF assms]
  have req: "request env methodName r b s =
      (case retry (getTime env) ?func (if b then MAX_REQUEST_RETRIES else 1) None s0 of
         None \<Rightarrow> None
       | Some (x, s3) \<Rightarrow>
           Some (x, s3\<lparr>inst := (inst s3)\<lparr>clientPool :=
                   map_option (release gapicClient) (clientPool (inst s3))\<rparr>\<rparr>))" for b
    unfolding request_def Let_def request_func_def
    by (rule runRequest_prepared[OF assms])
  {
    assume a: "always_transient ?func"
    define n where "n = (if allowRetries then 4 else (0::nat))"
    have n: "int n + 1 = (if allowRetries then MAX_REQUEST_RETRIES else 1)"
      by (simp add: n_def MAX_REQUEST_RETRIES_def)
    from retry_always_transient[OF a, of "getTime env" n None s0]
    obtain e s' where "retry (getTime env) ?func (if allowRetries then MAX_REQUEST_RETRIES else 1) None s0
        = Some (Inl e, s')" "calls s' = calls s0 + Suc n"
      unfolding n by blast
    with n c0 show "\<exists>e s'. request env methodName r allowRetries s = Some (Inl e, s')
        \<and> int (calls s') = int (calls s) + (if allowRetries then MAX_REQUEST_RETRIES else 1)"
      unfolding req[of allowRetries] by auto
  }
  {
    assume "fails_then_succeeds ?func (world s0) k v \<and> k < 5"
    then have f: "fails_then_succeeds ?func (world s0) k v" and k: "int k < 5" by simp_all
    from retry_fails_then_succeeds[OF f k, of "getTime env" None]
    obtain s' where "retry (getTime env) ?func 5 None s0 = Some (Inr v, s')"
      "calls s' = calls s0 + Suc k"
      by blast
    with c0 show "\<exists>s'. request env methodName r True s = Some (Inr v, s') \<and> calls s' = calls s + k + 1"
      unfolding req[of True] by (simp add: MAX_REQUEST_RETRIES_def)
  }
  {
    assume f: "fails_then_succeeds ?func (world s0) 0 v"
    have "int 0 < 1" by simp
    from retry_fails_then_succeeds[OF f this, of "getTime env" None]
    obtain s' where "retry (getTime env) ?func 1 None s0 = Some (Inr v, s')"
      "calls s' = calls s0 + Suc 0"
      by blast
    with c0 show "\<exists>s'. request env methodName r False s = Some (Inr v, s') \<and> calls s' = calls s + 1"
      unfolding req[of False] by simp
  }
qed

lemma request_func_gapic_with [simp]: "request_func (gapic_with func) c m f r = func"
  by (simp add: request_func_def gapic_with_def)

lemma fresh_prepared: "prepared (gapic_with func) (fresh w) \<noteq> None"
  by (simp add: prepared_def runRequest_sync_def initClientPool_def initSettles_def acquire_def
      fresh_def constructor_def validateAndApplySettings_def extend_settings_def Let_def)

lemma fresh_calls: "calls (fresh w) = 0"
  by (simp add: fresh_def)

text \<open>
  The theorem on a new instance: at a backend that is down, at a method that fails twice
  and then answers 7, and at one that answers at once.
\<close>

theorem request_attempt_budget_witness:
  "prepared (gapic_with down) (fresh ()) \<noteq> None
   \<and> always_transient down
   \<and> (\<exists>e s'. request (gapic_with down) ''commit'' () True (fresh ()) = Some (Inl e, s')
         \<and> int (calls s') = int (calls (fresh ())) + MAX_REQUEST_RETRIES)
   \<and> (\<exists>e s'. request (gapic_with down) ''commit'' () False (fresh ()) = Some (Inl e, s')
         \<and> int (calls s') = int (calls (fresh ())) + 1)
   \<and> prepared (gapic_with scripted) (fresh [Inl unavailable, Inl hang_up, Inr (7::nat)]) \<noteq> None
   \<and> fails_then_succeeds scripted [Inl unavailable, Inl hang_up, Inr (7::nat)] 2 7
   \<and> (\<exists>s'. request (gapic_with scripted) ''commit'' () True (fresh [Inl unavailable, Inl hang_up, Inr 7])
            = Some (Inr (7::nat), s')
         \<and> calls s' = calls (fresh [Inl unavailable, Inl hang_up, Inr (7::nat)]) + 2 + 1)
   \<and> fails_then_succeeds scripted ([Inr 7] :: nat settled list) 0 7
   \<and> (\<exists>s'. request (gapic_with scripted) ''commit'' () False (fresh [Inr 7]) = Some (Inr (7::nat), s')
         \<and> calls s' = calls (fresh ([Inr 7] :: nat settled list)) + 1)"
proof -
  let ?w = "[Inl unavailable, Inl hang_up, Inr (7::nat)]"
  obtain c1 s1 where p1: "prepared (gapic_with down) (fresh ()) = Some (c1, s1)"
    using fresh_prepared[of down "()"] by auto
  obtain c2 s2 where p2: "prepared (gapic_with scripted) (fresh ?w) = Some (c2, s2)"
    using fresh_prepared[of scripted ?w] by auto
  obtain c3 s3 where p3: "prepared (gapic_with scripted) (fresh ([Inr 7] :: nat settled list)) = Some (c3, s3)"
    using fresh_prepared[of scripted "[Inr 7] :: nat settled list"] by auto
  have w2: "world s2 = ?w"
    using p2 by (auto simp: prepared_def runRequest_sync_def initClientPool_def initSettles_def
        acquire_def fresh_def constructor_def validateAndApplySettings_def extend_settings_def Let_def)
  have w3: "world s3 = [Inr 7]"
    using p3 by (auto simp: prepared_def runRequest_sync_def initClientPool_def initSettles_def
        acquire_def fresh_def constructor_def validateAndApplySettings_def extend_settings_def Let_def)
  have a: "always_transient down"
    by (simp add: always_transient_def down_def transient_def unavailable_def GRPC_UNAVAILABLE_def)
  have b: "fails_then_succeeds scripted ?w 2 7"
    by (simp add: numeral_2_eq_2 scripted_def transient_def unavailable_def hang_up_def
        GRPC_UNAVAILABLE_def)
  have c: "fails_then_succeeds scripted ([Inr 7] :: nat settled list) 0 7"
    by (simp add: scripted_def)
  note A = request_attempt_budget[OF p1, where methodName="''commit''" and r="()" and k=0 and v=0,
      unfolded request_func_gapic_with]
  note B = request_attempt_budget[OF p2, where methodName="''commit''" and r="()" and k=2 and v=7
      and allowRetries=True, unfolded request_func_gapic_with w2]
  note C = request_attempt_budget[OF p3, where methodName="''commit''" and r="()" and v=7 and k=0
      and allowRetries=False,
      unfolded request_func_gapic_with w3]
  from A[where allowRetries=True] a
  have 1: "\<exists>e s'. request (gapic_with down) ''commit'' () True (fresh ()) = Some (Inl e, s')
         \<and> int (calls s') = int (calls (fresh ())) + MAX_REQUEST_RETRIES"
    by simp
  from A[where allowRetries=False] a
  have 2: "\<exists>e s'. request (gapic_with down) ''commit'' () False (fresh ()) = Some (Inl e, s')
         \<and> int (calls s') = int (calls (fresh ())) + 1"
    by simp
  from B b
  have 3: "\<exists>s'. request (gapic_with scripted) ''commit'' () True (fresh ?w) = Some (Inr 7, s')
         \<and> calls s' = calls (fresh ?w) + 2 + 1"
    by simp
  from C c
  have 4: "\<exists>s'. request (gapic_with scripted) ''commit'' () False (fresh [Inr 7]) = Some (Inr (7::nat), s')
         \<and> calls s' = calls (fresh ([Inr 7] :: nat settled list)) + 1"
    by blast
  show ?thesis
    by (intro conjI) (rule fresh_prepared a b c 1 2 3 4)+
qed

section \<open>Properties of client initialization\<close>

lemma retry_frame_aux:
  assumes "retry now0 func0 n0 d0 s0 = Some y0"
  shows "same_init s0 (snd y0)"
  apply (rule retry.raw_induct[where P="\<lambda>now func n d s y. same_init s (snd y)", OF _ assms])
  subgoal premises prems for retry' now func n d s y
    using prems(2)
      prems(1)[of now func "n - 1" "Some (or_default d 100)"
        "s\<lparr>delays := delays s @ [or_default d 0], calls := calls s + 1,
           world := snd (func (world s))\<rparr>" y]
    by (auto simp: Let_def same_init_def split: sum.splits if_splits)
  done

lemma retry_frame: "retry now func n d s = Some (r, s') \<Longrightarrow> same_init s s'"
  using retry_frame_aux[of now func n d s "(r, s')"] by simp

lemma init_inv_runRequest_sync:
  assumes "init_inv s"
  shows "init_inv (snd (runRequest_sync s))"
    and "fst (runRequest_sync s) = None"
    and "clientInitialized (inst (snd (runRequest_sync s))) \<noteq> None"
    and "memo s = Some n \<Longrightarrow> memo (snd (runRequest_sync s)) = Some n"
  using assms
  by (auto simp: init_inv_def runRequest_sync_def initClientPool_def pool_of_promise_def
      acquire_def memo_def Let_def split: option.splits prod.splits init_status.splits)

lemma init_inv_initSettles:
  assumes "init_inv s"
  shows "init_inv (initSettles env s)"
    and "memo (initSettles env s) = memo s"
  using assms
  by (auto simp: init_inv_def initSettles_def pool_of_promise_def release_def memo_def
      split: option.splits init_status.splits sum.splits)

lemma init_inv_settings:
  assumes "init_inv s"
  shows "init_inv (s\<lparr>inst := snd (settings st (inst s))\<rparr>)"
    and "memo (s\<lparr>inst := snd (settings st (inst s))\<rparr>) = memo s"
  using assms
  by (auto simp: init_inv_def settings_def validateAndApplySettings_def pool_of_promise_def
      memo_def Let_def split: option.splits init_status.splits)

lemma acquire_poolNo: "poolNo (snd (acquire st p)) = poolNo p"
  by (auto simp: acquire_def Let_def split: option.splits prod.splits)

lemma release_poolNo: "poolNo (release c p) = poolNo p"
  by (simp add: release_def)

lemma same_init_inv:
  assumes "same_init s s'" and "init_inv s"
  shows "init_inv s'" and "memo s' = memo s"
  using assms
  by (auto simp: same_init_def init_inv_def pool_of_promise_def memo_def split: option.splits)

lemma init_inv_pool_update:
  assumes "init_inv s" and "clientPool (inst s) = Some pl" and "poolNo pl' = poolNo pl"
  shows "init_inv (s\<lparr>inst := (inst s)\<lparr>clientPool := Some pl'\<rparr>\<rparr>)"
    and "memo (s\<lparr>inst := (inst s)\<lparr>clientPool := Some pl'\<rparr>\<rparr>) = memo s"
  using assms
  by (auto simp: init_inv_def pool_of_promise_def memo_def split: option.splits)

lemma init_inv_release:
  assumes "init_inv s"
  shows "init_inv (s\<lparr>inst := (inst s)\<lparr>clientPool := map_option (release c) (clientPool (inst s))\<rparr>\<rparr>)"
    and "memo (s\<lparr>inst := (inst s)\<lparr>clientPool := map_option (release c) (clientPool (inst s))\<rparr>\<rparr>)
          = memo s"
  using assms
  by (auto simp: init_inv_def pool_of_promise_def memo_def release_poolNo split: option.splits)

lemma init_inv_runRequest:
  assumes inv: "init_inv s"
    and op: "\<And>c t x t'. op c t = Some (x, t') \<Longrightarrow> same_init t t'"
    and run: "runRequest env op s = Some (x, s')"
  shows "init_inv s' \<and> memo s' = memo (snd (runRequest_sync s))"
proof -
  obtain s1 where sync: "runRequest_sync s = (None, s1)"
    using init_inv_runRequest_sync(2)[OF inv] by (cases "runRequest_sync s") auto
  then have s1_eq: "snd (runRequest_sync s) = s1" by simp
  let ?s2 = "initSettles env s1"
  note s1 = init_inv_runRequest_sync(1)[OF inv, unfolded s1_eq]
  note s2 = init_inv_initSettles[OF s1, of env]
  show ?thesis
  proof (cases "clientInitialized (inst ?s2)")
    case None
    with run sync s2 show ?thesis by (auto simp add: runRequest_def Let_def s1_eq)
  next
    case (Some p)
    show ?thesis
    proof (cases "status p")
      case (Pending pl c)
      with run sync Some show ?thesis by (simp add: runRequest_def Let_def)
    next
      case (Rejected e)
      with run sync Some s2 show ?thesis by (auto simp add: runRequest_def Let_def s1_eq)
    next
      case Fulfilled
      show ?thesis
      proof (cases "clientPool (inst ?s2)")
        case None
        with run sync \<open>clientInitialized (inst ?s2) = Some p\<close> Fulfilled s2 show ?thesis
          by (auto simp add: runRequest_def Let_def s1_eq)
      next
        case (Some pl)
        obtain c pl' where acq: "acquire (initalizationSettings (inst ?s2)) pl = (c, pl')"
          by (cases "acquire (initalizationSettings (inst ?s2)) pl") auto
        with acquire_poolNo[of "initalizationSettings (inst ?s2)" pl] have pn: "poolNo pl' = poolNo pl"
          by simp
        let ?s3 = "?s2\<lparr>inst := (inst ?s2)\<lparr>clientPool := Some pl'\<rparr>\<rparr>"
        note s3 = init_inv_pool_update[OF s2(1) Some pn]
        from run sync \<open>clientInitialized (inst ?s2) = Some p\<close> Fulfilled Some acq
        obtain s4 where o: "op c ?s3 = Some (x, s4)"
          and s': "s' = s4\<lparr>inst := (inst s4)\<lparr>clientPool :=
                map_option (release c) (clientPool (inst s4))\<rparr>\<rparr>"
          by (auto simp add: runRequest_def Let_def split: option.splits)
        note s4 = same_init_inv[OF op[OF o] s3(1)]
        from init_inv_release[OF s4(1), of c] s4(2) s3(2) s2(2) show ?thesis
          unfolding s' s1_eq by simp
      qed
    qed
  qed
qed

lemma init_inv_request:
  assumes "init_inv s" and "request env methodName r allowRetries s = Some (x, s')"
  shows "init_inv s' \<and> memo s' = memo (snd (runRequest_sync s))"
  using assms(2) unfolding request_def Let_def
  by (rule init_inv_runRequest[OF assms(1), rotated]) (auto dest: retry_frame)

lemma init_inv_step:
  assumes "init_inv s"
  shows "init_inv (step env s a)" and "memo s = Some n \<Longrightarrow> memo (step env s a) = Some n"
proof -
  have "init_inv (step env s a) \<and> (memo s = Some n \<longrightarrow> memo (step env s a) = Some n)"
  proof (cases a)
    case (Calls m)
    with init_inv_runRequest_sync(1,4)[OF assms] show ?thesis by (simp add: call_sync_def)
  next
    case InitSettles
    with init_inv_initSettles[OF assms, of env] show ?thesis by simp
  next
    case (Requests methodName r allowRetries)
    show ?thesis
    proof (cases "request env methodName r allowRetries s")
      case None
      with Requests assms show ?thesis by simp
    next
      case (Some y)
      obtain x s' where y: "y = (x, s')" by (cases y)
      from init_inv_request[OF assms Some[unfolded y]] init_inv_runRequest_sync(4)[OF assms, of n]
      show ?thesis using Requests Some y by auto
    qed
  next
    case (Settings st)
    with init_inv_settings[OF assms, of st] show ?thesis by simp
  qed
  then show "init_inv (step env s a)" and "memo s = Some n \<Longrightarrow> memo (step env s a) = Some n"
    by simp_all
qed

lemma init_inv_foldl: "init_inv s \<Longrightarrow> init_inv (foldl (step env) s acts)"
  by (induction acts arbitrary: s) (simp_all add: init_inv_step(1))

lemma memo_foldl:
  "init_inv s \<Longrightarrow> memo s = Some n \<Longrightarrow> memo (foldl (step env) s acts) = Some n"
  by (induction acts arbitrary: s) (simp_all add: init_inv_step)

lemma init_inv_new: "init_inv (new_instance libVersion functionTriggerType st w)"
  by (simp add: init_inv_def new_instance_def constructor_def validateAndApplySettings_def Let_def)

text \<open>
  Claim C9. Whatever happens to a new instance (calls of the three funnels, the
  settlement of the initialization promise, whole requests, calls of
  \<^verbatim>\<open>settings()\<close>), \<^verbatim>\<open>_initClientPool\<close> runs at most once. A call of a funnel never
  throws, and when it returns \<^verbatim>\<open>_clientInitialized\<close> is set: the first call sets it
  before anything can come in between. Once it is set, whatever happens later,
  \<^verbatim>\<open>_initClientPool\<close> has run exactly once, \<^verbatim>\<open>_clientInitialized\<close> holds the same
  promise, and the pool of the instance, once it has one, is the pool created by that run.
\<close>

theorem client_pool_initialized_once:
  "initCalls (run env (new_instance libVersion functionTriggerType st w) acts) \<le> 1
   \<and> fst (call_sync m (run env (new_instance libVersion functionTriggerType st w) acts)) = None
   \<and> clientInitialized
        (inst (snd (call_sync m (run env (new_instance libVersion functionTriggerType st w) acts))))
         \<noteq> None
   \<and> (clientInitialized (inst (run env (new_instance libVersion functionTriggerType st w) acts))
         = Some p \<longrightarrow>
        initCalls (run env (new_instance libVersion functionTriggerType st w) (acts @ later)) = 1
      \<and> memo (run env (new_instance libVersion functionTriggerType st w) (acts @ later))
          = Some (promiseNo p)
      \<and> pool_of_promise (promiseNo p)
          (run env (new_instance libVersion functionTriggerType st w) (acts @ later)))"
proof -
  let ?s0 = "new_instance libVersion functionTriggerType st w"
  have inv: "init_inv (run env ?s0 xs)" for xs
    unfolding run_def by (rule init_inv_foldl[OF init_inv_new])
  have 1: "initCalls (run env ?s0 acts) \<le> 1"
    using inv[of acts] by (auto simp: init_inv_def split: option.splits)
  note sync = init_inv_runRequest_sync(2,3)[OF inv[of acts]]
  have 2: "initCalls (run env ?s0 (acts @ later)) = 1
      \<and> memo (run env ?s0 (acts @ later)) = Some (promiseNo p)
      \<and> pool_of_promise (promiseNo p) (run env ?s0 (acts @ later))"
    if p: "clientInitialized (inst (run env ?s0 acts)) = Some p"
  proof -
    from p have "memo (run env ?s0 acts) = Some (promiseNo p)" by (simp add: memo_def)
    from memo_foldl[OF inv[of acts] this, of env later]
    have m: "memo (run env ?s0 (acts @ later)) = Some (promiseNo p)" by (simp add: run_def)
    with inv[of "acts @ later"] show ?thesis
      by (auto simp: init_inv_def memo_def split: option.splits)
  qed
  from 1 sync 2 show ?thesis by (simp add: call_sync_def)
qed

text \<open>
  The theorem at an instance without a project ID: a first call, then a second call
  before the promise settles, the settlement, a whole request, a third call and a call of
  \<^verbatim>\<open>settings()\<close>.
\<close>

theorem client_pool_initialized_once_witness:
  "(\<exists>p. clientInitialized (inst (run (gapic_with scripted) undetected [Calls UnaryRequest])) = Some p
        \<and> promiseNo p = 1)
   \<and> initCalls (run (gapic_with scripted) undetected
        ([Calls UnaryRequest]
         @ [Calls ReadStream, InitSettles, Requests ''commit'' () True, Calls ReadWriteStream,
            Settings more_settings])) = 1
   \<and> memo (run (gapic_with scripted) undetected
        ([Calls UnaryRequest]
         @ [Calls ReadStream, InitSettles, Requests ''commit'' () True, Calls ReadWriteStream,
            Settings more_settings])) = Some 1
   \<and> pool_of_promise 1 (run (gapic_with scripted) undetected
        ([Calls UnaryRequest]
         @ [Calls ReadStream, InitSettles, Requests ''commit'' () True, Calls ReadWriteStream,
            Settings more_settings]))"
proof -
  let ?later = "[Calls ReadStream, InitSettles, Requests ''commit'' () True, Calls ReadWriteStream,
            Settings more_settings]"
  have "memo (run (gapic_with scripted) undetected [Calls UnaryRequest]) = Some 1"
    by (simp add: memo_def run_def call_sync_def runRequest_sync_def initClientPool_def
        undetected_def new_instance_def constructor_def validateAndApplySettings_def
        extend_settings_def acquire_def Let_def)
  then obtain p where p: "clientInitialized (inst (run (gapic_with scripted) undetected [Calls UnaryRequest])) = Some p"
    "promiseNo p = 1"
    by (auto simp: memo_def)
  note T = client_pool_initialized_once[where env="gapic_with scripted" and libVersion="''0.14.1''"
      and functionTriggerType=None
      and st="\<lparr>projectId = None, timestampsInSnapshots = Some True, otherSettings = Map.empty\<rparr>"
      and w="[Inl unavailable, Inr (7::nat)]" and acts="[Calls UnaryRequest]" and later="?later"
      and p=p and m=UnaryRequest, folded undetected_def]
  note U = T[THEN conjunct2, THEN conjunct2, THEN conjunct2, THEN mp, OF p(1), unfolded p(2)]
  from p have "\<exists>p. clientInitialized (inst (run (gapic_with scripted) undetected [Calls UnaryRequest])) = Some p
        \<and> promiseNo p = 1"
    by blast
  with U show ?thesis by (intro conjI) (elim conjE, assumption)+
qed

end
